theory Spec2Isabelle
  imports Main "HOL-Library.Monad_Syntax"
begin

section \<open>The PDB scanner of ddr: building the type graph from debug symbols\<close>

text \<open>
  A shallow embedding of \<^verbatim>\<open>ddr/lib/ddr-scanner/pdb/PdbScanner.cpp\<close>.
  Every function of the scanner that builds the intermediate representation is a HOL
  function of the same name. The objects the C++ code allocates with \<^verbatim>\<open>new\<close> live in
  an explicit store (an address is a natural number, a null pointer is \<open>None\<close>), the
  members of the scanner object are the fields of the record \<open>PdbScanner\<close>, and a function
  that mutates the scanner takes the record and returns the new one.

  A function of the scanner returns \<open>None\<close> where the C++ code has no defined result:
  it dereferences a null pointer, reads past the end of an array, or never leaves a loop.
\<close>

subsection \<open>Strings\<close>

text \<open>\<^verbatim>\<open>std::string::find(pat, pos)\<close>: the first index at or after \<open>pos\<close> where \<open>pat\<close>
  occurs; \<open>None\<close> is \<^verbatim>\<open>string::npos\<close>.\<close>

fun find_at :: "string \<Rightarrow> string \<Rightarrow> nat \<Rightarrow> nat option" where
  "find_at pat [] i = (if pat = [] then Some i else None)"
| "find_at pat (c # cs) i =
     (if take (length pat) (c # cs) = pat then Some i else find_at pat cs (i + 1))"

definition str_find :: "string \<Rightarrow> string \<Rightarrow> nat \<Rightarrow> nat option" where
  "str_find s pat pos = (if length s < pos then None else find_at pat (drop pos s) pos)"

text \<open>\<^verbatim>\<open>s.substr(pos, n)\<close>, \<^verbatim>\<open>s.substr(pos)\<close> and \<^verbatim>\<open>s.replace(pos, n, "")\<close>, at positions
  inside the string (the scanner only passes positions that \<^verbatim>\<open>find\<close> returned).\<close>

definition substr :: "string \<Rightarrow> nat \<Rightarrow> nat \<Rightarrow> string" where
  "substr s pos n = take n (drop pos s)"

definition substr_from :: "string \<Rightarrow> nat \<Rightarrow> string" where
  "substr_from s pos = drop pos s"

definition str_erase :: "string \<Rightarrow> nat \<Rightarrow> nat \<Rightarrow> string" where
  "str_erase s pos n = take pos s @ drop (pos + n) s"

text \<open>The pattern \<open>pat\<close> occurs in \<open>s\<close> at index \<open>k\<close>.\<close>

definition occurs_at :: "string \<Rightarrow> string \<Rightarrow> nat \<Rightarrow> bool" where
  "occurs_at pat s k = (k \<le> length s \<and> take (length pat) (drop k s) = pat)"

text \<open>\<^verbatim>\<open>ss << n\<close> for an unsigned integer: its decimal digits.\<close>

fun decimal :: "nat \<Rightarrow> string" where
  "decimal n =
     (if n < 10 then [char_of (48 + n)] else decimal (n div 10) @ [char_of (48 + n mod 10)])"

declare decimal.simps [simp del]

subsection \<open>The Symbol Source\<close>

text \<open>
  The DIA interface \<^verbatim>\<open>IDiaSymbol\<close> is outside the repository. A symbol is modelled by
  what its accessors return; \<open>None\<close> is a failed \<^verbatim>\<open>HRESULT\<close>. The type a symbol
  refers to and its children are symbols again, so a symbol is a finite tree.
\<close>

datatype DDR_RC = DDR_RC_OK | DDR_RC_ERROR

datatype SymTagEnum =
    SymTagNull | SymTagExe | SymTagCompiland | SymTagCompilandDetails | SymTagCompilandEnv
  | SymTagFunction | SymTagBlock | SymTagData | SymTagAnnotation | SymTagLabel
  | SymTagPublicSymbol | SymTagUDT | SymTagEnum | SymTagFunctionType | SymTagPointerType
  | SymTagArrayType | SymTagBaseType | SymTagTypedef | SymTagBaseClass | SymTagFriend
  | SymTagFunctionArgType | SymTagFuncDebugStart | SymTagFuncDebugEnd | SymTagUsingNamespace
  | SymTagVTableShape | SymTagVTable | SymTagCustom | SymTagThunk | SymTagCustomType
  | SymTagManagedType | SymTagDimension

datatype LocationType =
    LocIsNull | LocIsStatic | LocIsTLS | LocIsRegRel | LocIsThisRel | LocIsEnregistered
  | LocIsBitField | LocIsSlot | LocIsIlRel | LocInMetaData | LocIsConstant

record DiaProps =
  get_symTag :: "SymTagEnum option"
  get_name :: "string option"
  get_length :: "nat option"
  get_baseType :: "nat option"
  get_udtKind :: "nat option"
  get_count :: "nat option"
  get_reference :: "bool option"
  get_constType :: "bool option"
  get_volatileType :: "bool option"
  get_unalignedType :: "bool option"
  get_locationType :: "LocationType option"
  get_offset :: "int option"
  get_bitPosition :: "nat option"

datatype IDiaSymbol =
  IDiaSymbol (props: DiaProps) (get_type: "IDiaSymbol option") (children: "IDiaSymbol list option")

text \<open>\<^verbatim>\<open>findChildren(symTag, NULL, nsNone, &result)\<close> followed by \<^verbatim>\<open>get_Count\<close> and
  \<^verbatim>\<open>Next\<close>: the children whose tag is \<open>symTag\<close>, all of them for \<open>SymTagNull\<close>;
  \<open>None\<close> when one of the three calls fails.\<close>

definition findChildren :: "SymTagEnum \<Rightarrow> IDiaSymbol \<Rightarrow> IDiaSymbol list option" where
  "findChildren symTag symbol =
     map_option (filter (\<lambda>c. symTag = SymTagNull \<or> get_symTag (props c) = Some symTag))
       (children symbol)"

text \<open>The basic-type codes of \<^verbatim>\<open>cvconst.h\<close> that the scanner names.\<close>

definition btInt :: nat where "btInt = 6"
definition btUInt :: nat where "btUInt = 7"
definition btFloat :: nat where "btFloat = 8"

definition baseTypeArray :: "string list" where
  "baseTypeArray =
     [''<NoType>'', ''void'', ''I8'', ''wchar_t'', ''I8'', ''U8'', ''I32'', ''U32'', ''float'',
      ''<BCD>'', ''bool'', ''short'', ''unsigned short'', ''I32'', ''U32'', ''I8'', ''I16'',
      ''I32'', ''I64'', ''__int128'', ''U8'', ''U16'', ''U32'', ''U64'', ''U128'',
      ''unsigned __int128'', ''<currency>'', ''<date>'', ''VARIANT'', ''<complex>'', ''<bit>'',
      ''BSTR'', ''HRESULT'', ''double'']"

definition errorNoType :: string where
  "errorNoType = ''ERROR_PDBSCANNER_MISSING_THIS_TYPE''"

subsection \<open>Reading a symbol's name and size\<close>

text \<open>The two spellings of the anonymous-namespace marker that \<open>getName\<close> searches for.\<close>

definition anonymous_namespace_hyphen :: string where
  "anonymous_namespace_hyphen = ''`anonymous-namespace'::''"

definition anonymous_namespace_space :: string where
  "anonymous_namespace_space = ''`anonymous namespace'::''"

definition getName :: "IDiaSymbol \<Rightarrow> DDR_RC \<times> string" where
  "getName symbol =
     (case get_name (props symbol) of
        None \<Rightarrow> (DDR_RC_ERROR, [])
      | Some nameChar \<Rightarrow>
          (let pos = str_find nameChar anonymous_namespace_hyphen 0;
               pos = (if pos = None then str_find nameChar anonymous_namespace_space 0 else pos)
           in (DDR_RC_OK, case pos of None \<Rightarrow> nameChar | Some p \<Rightarrow> str_erase nameChar p 23)))"

definition getSize :: "IDiaSymbol \<Rightarrow> DDR_RC \<times> nat" where
  "getSize symbol =
     (case get_length (props symbol) of None \<Rightarrow> (DDR_RC_ERROR, 0) | Some ul \<Rightarrow> (DDR_RC_OK, ul))"

subsection \<open>Facts about string search\<close>

lemma find_at_Some_iff:
  "find_at pat s i = Some j \<longleftrightarrow>
     i \<le> j \<and> occurs_at pat s (j - i) \<and> (\<forall>k < j - i. \<not> occurs_at pat s k)"
proof (induction s arbitrary: i)
  case Nil
  show ?case by (auto simp: occurs_at_def)
next
  case (Cons c cs)
  show ?case
  proof (cases "take (length pat) (c # cs) = pat")
    case True
    then have here: "occurs_at pat (c # cs) 0" by (simp add: occurs_at_def)
    show ?thesis
    proof
      assume "find_at pat (c # cs) i = Some j"
      with True have "j = i" by simp
      with here show "i \<le> j \<and> occurs_at pat (c # cs) (j - i) \<and>
          (\<forall>k < j - i. \<not> occurs_at pat (c # cs) k)" by simp
    next
      assume r: "i \<le> j \<and> occurs_at pat (c # cs) (j - i) \<and>
          (\<forall>k < j - i. \<not> occurs_at pat (c # cs) k)"
      have "j - i = 0"
      proof (rule ccontr)
        assume "j - i \<noteq> 0"
        then have "0 < j - i" by simp
        with r have "\<not> occurs_at pat (c # cs) 0" by blast
        with here show False by simp
      qed
      with r have "j = i" by simp
      with True show "find_at pat (c # cs) i = Some j" by simp
    qed
  next
    case False
    then have nothere: "\<not> occurs_at pat (c # cs) 0" by (simp add: occurs_at_def)
    have shift: "occurs_at pat (c # cs) (Suc k) = occurs_at pat cs k" for k
      by (simp add: occurs_at_def)
    have "find_at pat (c # cs) i = find_at pat cs (Suc i)" using False by simp
    also have "\<dots> = Some j \<longleftrightarrow>
        Suc i \<le> j \<and> occurs_at pat cs (j - Suc i) \<and> (\<forall>k < j - Suc i. \<not> occurs_at pat cs k)"
      by (rule Cons.IH)
    also have "\<dots> \<longleftrightarrow>
        i \<le> j \<and> occurs_at pat (c # cs) (j - i) \<and> (\<forall>k < j - i. \<not> occurs_at pat (c # cs) k)"
    proof
      assume l: "Suc i \<le> j \<and> occurs_at pat cs (j - Suc i) \<and>
          (\<forall>k < j - Suc i. \<not> occurs_at pat cs k)"
      then have d: "j - i = Suc (j - Suc i)" by arith
      have "\<not> occurs_at pat (c # cs) k" if "k < j - i" for k
      proof (cases k)
        case 0
        with nothere show ?thesis by simp
      next
        case (Suc m)
        with that d have "m < j - Suc i" by arith
        with l Suc shift show ?thesis by simp
      qed
      with l d shift show "i \<le> j \<and> occurs_at pat (c # cs) (j - i) \<and>
          (\<forall>k < j - i. \<not> occurs_at pat (c # cs) k)" by simp
    next
      assume r: "i \<le> j \<and> occurs_at pat (c # cs) (j - i) \<and>
          (\<forall>k < j - i. \<not> occurs_at pat (c # cs) k)"
      have "j - i \<noteq> 0" using r nothere by auto
      then have d: "j - i = Suc (j - Suc i)" and le: "Suc i \<le> j" by arith+
      have "\<not> occurs_at pat cs k" if "k < j - Suc i" for k
      proof -
        from that d have "Suc k < j - i" by arith
        with r have "\<not> occurs_at pat (c # cs) (Suc k)" by blast
        with shift show ?thesis by simp
      qed
      moreover have "occurs_at pat cs (j - Suc i)" using r d shift by simp
      ultimately show "Suc i \<le> j \<and> occurs_at pat cs (j - Suc i) \<and>
          (\<forall>k < j - Suc i. \<not> occurs_at pat cs k)" using le by simp
    qed
    finally show ?thesis .
  qed
qed

lemma str_find_0_Some_iff:
  "str_find s pat 0 = Some j \<longleftrightarrow> occurs_at pat s j \<and> (\<forall>k < j. \<not> occurs_at pat s k)"
  by (simp add: str_find_def find_at_Some_iff)

lemma str_find_0_None_iff: "str_find s pat 0 = None \<longleftrightarrow> (\<forall>k. \<not> occurs_at pat s k)"
proof
  assume n: "str_find s pat 0 = None"
  show "\<forall>k. \<not> occurs_at pat s k"
  proof (rule ccontr)
    assume "\<not> (\<forall>k. \<not> occurs_at pat s k)"
    then obtain k where k: "occurs_at pat s k" by blast
    define m where "m = (LEAST k. occurs_at pat s k)"
    have "occurs_at pat s m" unfolding m_def using k by (rule LeastI)
    moreover have "\<forall>k < m. \<not> occurs_at pat s k"
      unfolding m_def using not_less_Least by blast
    ultimately have "str_find s pat 0 = Some m" by (simp add: str_find_0_Some_iff)
    with n show False by simp
  qed
next
  assume a: "\<forall>k. \<not> occurs_at pat s k"
  show "str_find s pat 0 = None"
  proof (cases "str_find s pat 0")
    case None
    then show ?thesis .
  next
    case (Some j)
    then have "occurs_at pat s j" by (simp add: str_find_0_Some_iff)
    with a show ?thesis by simp
  qed
qed



subsection \<open>The intermediate representation\<close>

datatype TypeClass = Type | EnumUDT | ClassUDT | TypedefUDT

datatype ModifierFlag = CONST_TYPE | VOLATILE_TYPE | UNALIGNED_TYPE

record Modifiers =
  m_modifierFlags :: "ModifierFlag set"
  m_pointerCount :: nat
  m_referenceCount :: nat
  m_arrayLengths :: "nat list"

record Field =
  f_name :: string
  f_fieldType :: "nat option"
  f_modifiers :: Modifiers
  f_offset :: nat
  f_bitField :: nat
  f_isStatic :: bool

record TypeNode =
  t_class :: TypeClass
  t_name :: string
  t_sizeOf :: nat
  t_outerNamespace :: "nat option"
  t_subUDTs :: "nat list"
  t_fieldMembers :: "nat list"
  t_enumMembers :: "string list"
  t_superClass :: "nat option"
  t_aliasedType :: "nat option"
  t_modifiers :: Modifiers

datatype TypeRef = FieldTypeRef nat | AliasedTypeRef nat | SuperClassRef nat

datatype ModifiersRef = FieldModifiers nat | TypedefModifiers nat

record PdbScanner =
  typeMap :: "string \<rightharpoonup> nat"
  ir_types :: "nat list"
  postponedFields :: "(TypeRef \<times> string) list"
  blacklistedTypes :: "string set"
  typeStore :: "nat \<Rightarrow> TypeNode"
  nextType :: nat
  fieldStore :: "nat \<Rightarrow> Field"
  nextField :: nat
  handlesHeld :: nat

definition noModifiers :: Modifiers where
  "noModifiers = \<lparr>m_modifierFlags = {}, m_pointerCount = 0, m_referenceCount = 0,
     m_arrayLengths = []\<rparr>"

text \<open>
  Modelled from the spec: the constructors of the IR classes (\<^verbatim>\<open>ddr/ir/*.hpp\<close>) are not in
  the source file. A new node has the size it is given, an empty name, no owner, no
  children and no references (\<section>3 of the specification: a Type has a name, a byte size and
  a nullable owner).
\<close>

definition newTypeNode :: "TypeClass \<Rightarrow> nat \<Rightarrow> TypeNode" where
  "newTypeNode c sz = \<lparr>t_class = c, t_name = [], t_sizeOf = sz, t_outerNamespace = None,
     t_subUDTs = [], t_fieldMembers = [], t_enumMembers = [], t_superClass = None,
     t_aliasedType = None, t_modifiers = noModifiers\<rparr>"

definition newFieldNode :: Field where
  "newFieldNode = \<lparr>f_name = [], f_fieldType = None, f_modifiers = noModifiers, f_offset = 0,
     f_bitField = 0, f_isStatic = False\<rparr>"

text \<open>\<^verbatim>\<open>new C(sz)\<close>: the node is stored at the next free address.\<close>

definition allocType :: "TypeClass \<Rightarrow> nat \<Rightarrow> PdbScanner \<Rightarrow> nat \<times> PdbScanner" where
  "allocType c sz st =
     (nextType st,
      st\<lparr>typeStore := (typeStore st)(nextType st := newTypeNode c sz),
         nextType := nextType st + 1\<rparr>)"

definition allocField :: "PdbScanner \<Rightarrow> nat \<times> PdbScanner" where
  "allocField st =
     (nextField st,
      st\<lparr>fieldStore := (fieldStore st)(nextField st := newFieldNode),
         nextField := nextField st + 1\<rparr>)"

text \<open>Updating one node or one field in place.\<close>

definition updType :: "nat \<Rightarrow> (TypeNode \<Rightarrow> TypeNode) \<Rightarrow> PdbScanner \<Rightarrow> PdbScanner" where
  "updType a f st = st\<lparr>typeStore := (typeStore st)(a := f (typeStore st a))\<rparr>"

definition updField :: "nat \<Rightarrow> (Field \<Rightarrow> Field) \<Rightarrow> PdbScanner \<Rightarrow> PdbScanner" where
  "updField a f st = st\<lparr>fieldStore := (fieldStore st)(a := f (fieldStore st a))\<rparr>"

text \<open>Writing and reading through a \<^verbatim>\<open>Type **\<close> and a \<^verbatim>\<open>Modifiers *\<close>.\<close>

definition writeRef :: "TypeRef \<Rightarrow> nat option \<Rightarrow> PdbScanner \<Rightarrow> PdbScanner" where
  "writeRef r v st =
     (case r of
        FieldTypeRef f \<Rightarrow> updField f (\<lambda>x. x\<lparr>f_fieldType := v\<rparr>) st
      | AliasedTypeRef t \<Rightarrow> updType t (\<lambda>x. x\<lparr>t_aliasedType := v\<rparr>) st
      | SuperClassRef t \<Rightarrow> updType t (\<lambda>x. x\<lparr>t_superClass := v\<rparr>) st)"

definition readRef :: "PdbScanner \<Rightarrow> TypeRef \<Rightarrow> nat option" where
  "readRef st r =
     (case r of
        FieldTypeRef f \<Rightarrow> f_fieldType (fieldStore st f)
      | AliasedTypeRef t \<Rightarrow> t_aliasedType (typeStore st t)
      | SuperClassRef t \<Rightarrow> t_superClass (typeStore st t))"

definition updModifiers ::
  "ModifiersRef \<Rightarrow> (Modifiers \<Rightarrow> Modifiers) \<Rightarrow> PdbScanner \<Rightarrow> PdbScanner" where
  "updModifiers r g st =
     (case r of
        FieldModifiers f \<Rightarrow> updField f (\<lambda>x. x\<lparr>f_modifiers := g (f_modifiers x)\<rparr>) st
      | TypedefModifiers t \<Rightarrow> updType t (\<lambda>x. x\<lparr>t_modifiers := g (t_modifiers x)\<rparr>) st)"

text \<open>
  Modelled from the spec: the virtual functions of the IR classes are not in the source
  file. The qualified name of a node is its name behind the names of its owners, joined by
  the separator (glossary of the specification; \<open>getUDTname\<close> of the source file computes
  the same string); a node of class \<open>Type\<close> has no owner. The walk up the owners is
  bounded by the number of allocated nodes: it can only be longer on a cycle of owners,
  where the C++ recursion does not return.
\<close>

fun getFullName_upto :: "nat \<Rightarrow> (nat \<Rightarrow> TypeNode) \<Rightarrow> nat \<Rightarrow> string option" where
  "getFullName_upto 0 store a = None"
| "getFullName_upto (Suc n) store a =
     (case t_outerNamespace (store a) of
        None \<Rightarrow> Some (t_name (store a))
      | Some outer \<Rightarrow>
          map_option (\<lambda>q. q @ ''::'' @ t_name (store a)) (getFullName_upto n store outer))"

definition getFullName :: "PdbScanner \<Rightarrow> nat \<Rightarrow> string option" where
  "getFullName st a = getFullName_upto (nextType st) (typeStore st) a"

text \<open>Modelled from the spec: \<open>getNamespace\<close> is the owner (\<section>3), \<open>getSubUDTS\<close> the
  ordered children of a class-like node and null for the other classes (\<section>3, \<section>9),
  \<open>getBaseType\<close> the aliased type of a typedef and null for the other classes (\<section>4.4,
  step 4).\<close>

definition getNamespace :: "PdbScanner \<Rightarrow> nat \<Rightarrow> nat option" where
  "getNamespace st a = t_outerNamespace (typeStore st a)"

definition getSubUDTS :: "PdbScanner \<Rightarrow> nat \<Rightarrow> nat list option" where
  "getSubUDTS st a =
     (if t_class (typeStore st a) = ClassUDT then Some (t_subUDTs (typeStore st a)) else None)"

definition getBaseType :: "PdbScanner \<Rightarrow> nat \<Rightarrow> nat option" where
  "getBaseType st a =
     (if t_class (typeStore st a) = TypedefUDT then t_aliasedType (typeStore st a) else None)"

text \<open>Modelled from the spec: \<open>checkBlacklistedType\<close> belongs to the scanner's base class,
  which is not in the source file; it answers whether the name is on the blacklist
  (\<section>6).\<close>

definition checkBlacklistedType :: "PdbScanner \<Rightarrow> string \<Rightarrow> bool" where
  "checkBlacklistedType st nm = (nm \<in> blacklistedTypes st)"

subsection \<open>The type registry\<close>

definition addType :: "nat \<Rightarrow> bool \<Rightarrow> PdbScanner \<Rightarrow> PdbScanner option" where
  "addType type addToIR st =
     (case getFullName st type of
        None \<Rightarrow> None
      | Some fullName \<Rightarrow>
          Some (if fullName \<noteq> [] \<and> typeMap st fullName = None
                then (let st1 = (if addToIR then st\<lparr>ir_types := ir_types st @ [type]\<rparr> else st)
                      in st1\<lparr>typeMap := (typeMap st1)(fullName \<mapsto> type)\<rparr>)
                else st))"

definition getType :: "PdbScanner \<Rightarrow> string \<Rightarrow> nat option" where
  "getType st s = (if s \<noteq> [] \<and> typeMap st s \<noteq> None then typeMap st s else None)"

fun initBaseTypes :: "string list \<Rightarrow> PdbScanner \<Rightarrow> PdbScanner" where
  "initBaseTypes [] st = st"
| "initBaseTypes (nm # rest) st =
     (let (type, st1) = allocType Type 0 st;
          st2 = updType type (\<lambda>x. x\<lparr>t_name := nm\<rparr>) st1
      in initBaseTypes rest
           (st2\<lparr>typeMap := (typeMap st2)(nm \<mapsto> type), ir_types := ir_types st2 @ [type]\<rparr>))"

definition initBaseTypeList :: "PdbScanner \<Rightarrow> PdbScanner" where
  "initBaseTypeList st = initBaseTypes (baseTypeArray @ [errorNoType]) st"

subsection \<open>Namespaces from decorated names\<close>

lemma find_at_bounds:
  "find_at pat s i = Some j \<Longrightarrow> i \<le> j \<and> j - i + length pat \<le> length s"
proof (induction s arbitrary: i)
  case Nil
  then show ?case by (simp split: if_splits)
next
  case (Cons c cs)
  show ?case
  proof (cases "take (length pat) (c # cs) = pat")
    case True
    then have "length (take (length pat) (c # cs)) = length pat" by simp
    then have "length pat \<le> length (c # cs)" by (simp only: length_take)
    with True Cons.prems show ?thesis by simp
  next
    case False
    with Cons.prems have "find_at pat cs (Suc i) = Some j" by simp
    then have "Suc i \<le> j \<and> j - Suc i + length pat \<le> length cs" by (rule Cons.IH)
    then show ?thesis by auto
  qed
qed

lemma str_find_bounds:
  assumes "str_find s pat pos = Some j"
  shows "pos \<le> j \<and> j + length pat \<le> length s"
proof -
  from assms have le: "pos \<le> length s" and f: "find_at pat (drop pos s) pos = Some j"
    by (auto simp: str_find_def split: if_splits)
  from find_at_bounds [OF f] le show ?thesis by auto
qed

text \<open>\<^verbatim>\<open>_ir->_types.erase(remove(begin, end, ns))\<close>: \<^verbatim>\<open>std::remove\<close> moves the other
  elements to the front and \<^verbatim>\<open>erase\<close> deletes the one element behind them.\<close>

definition eraseRemove :: "nat \<Rightarrow> nat list \<Rightarrow> nat list" where
  "eraseRemove ns ts =
     (let kept = filter (\<lambda>t. t \<noteq> ns) ts in kept @ drop (length kept + 1) ts)"

text \<open>The two halves of the body of the loop of \<open>getNamespaceFromName\<close>: the container of
  one segment is looked up by the segment's bare name and created when absent; then it is
  linked under the container of the previous segment when it has no owner yet.\<close>

definition findOrCreateNamespace ::
  "string \<Rightarrow> nat \<Rightarrow> nat option \<Rightarrow> PdbScanner \<Rightarrow> (nat \<times> PdbScanner) option" where
  "findOrCreateNamespace namespaceName previousPos outerNamespace st =
     (case getType st namespaceName of
        Some ns \<Rightarrow> Some (ns, st)
      | None \<Rightarrow>
          (let (ns, st1) = allocType ClassUDT 0 st;
               st2 = updType ns (\<lambda>x. x\<lparr>t_name := namespaceName,
                       t_outerNamespace := outerNamespace\<rparr>) st1
           in map_option (Pair ns) (addType ns (previousPos = 0) st2)))"

definition linkNamespace :: "nat \<Rightarrow> nat option \<Rightarrow> PdbScanner \<Rightarrow> PdbScanner" where
  "linkNamespace ns outerNamespace st =
     (case outerNamespace of
        None \<Rightarrow> st
      | Some outer \<Rightarrow>
          if t_outerNamespace (typeStore st ns) = None then
            (let st1 = updType ns (\<lambda>x. x\<lparr>t_outerNamespace := Some outer\<rparr>) st;
                 st2 = updType outer (\<lambda>x. x\<lparr>t_subUDTs := t_subUDTs x @ [ns]\<rparr>) st1
             in if ns \<in> set (ir_types st2)
                then st2\<lparr>ir_types := eraseRemove ns (ir_types st2)\<rparr> else st2)
          else st)"

function getNamespaceLoop ::
  "string \<Rightarrow> nat \<Rightarrow> nat option \<Rightarrow> PdbScanner \<Rightarrow> (nat \<times> nat option \<times> PdbScanner) option" where
  "getNamespaceLoop nm previousPos outerNamespace st =
     (case str_find nm ''::'' previousPos of
        None \<Rightarrow> Some (previousPos, outerNamespace, st)
      | Some pos \<Rightarrow>
          (case findOrCreateNamespace (substr nm previousPos (pos - previousPos)) previousPos
                  outerNamespace st of
             None \<Rightarrow> None
           | Some (ns, st1) \<Rightarrow>
               getNamespaceLoop nm (pos + 2) (Some ns) (linkNamespace ns outerNamespace st1)))"
  by pat_completeness auto
termination
proof (relation "measure (\<lambda>(nm, previousPos, outerNamespace, st). Suc (length nm) - previousPos)")
  show "wf (measure (\<lambda>(nm, previousPos, outerNamespace, st). Suc (length nm) - previousPos))"
    by simp
next
  fix nm :: string and previousPos :: nat and outerNamespace :: "nat option"
    and st st1 :: PdbScanner and pos :: nat and ns :: nat
  assume "str_find nm ''::'' previousPos = Some pos"
  then have "previousPos \<le> pos \<and> pos + length ''::'' \<le> length nm" by (rule str_find_bounds)
  then show "((nm, pos + 2, Some ns, linkNamespace ns outerNamespace st1),
              (nm, previousPos, outerNamespace, st))
      \<in> measure (\<lambda>(nm, previousPos, outerNamespace, st). Suc (length nm) - previousPos)"
    by simp arith
qed

declare getNamespaceLoop.simps [simp del]

definition getNamespaceFromName ::
  "string \<Rightarrow> nat option \<Rightarrow> PdbScanner \<Rightarrow> (string \<times> nat option \<times> PdbScanner) option" where
  "getNamespaceFromName nm outerUDT st =
     (if outerUDT = None then
        (case getNamespaceLoop nm 0 None st of
           None \<Rightarrow> None
         | Some (previousPos, outerNamespace, st1) \<Rightarrow>
             Some (substr_from nm previousPos, outerNamespace, st1))
      else Some (nm, outerUDT, st))"

subsection \<open>Fields: offset, modifiers, base types\<close>

text \<open>\<^verbatim>\<open>(size_t)loffset\<close> for a \<^verbatim>\<open>LONG\<close>, with \<^verbatim>\<open>size_t\<close> 64 bits wide.\<close>

definition size_t_of_LONG :: "int \<Rightarrow> nat" where
  "size_t_of_LONG l = nat (l mod 2 ^ 64)"

definition setMemberOffset :: "IDiaSymbol \<Rightarrow> nat \<Rightarrow> PdbScanner \<Rightarrow> DDR_RC \<times> PdbScanner" where
  "setMemberOffset symbol newField st =
     (case get_locationType (props symbol) of
        None \<Rightarrow> (DDR_RC_ERROR, st)
      | Some locType \<Rightarrow>
          if locType = LocIsThisRel then
            (case get_offset (props symbol) of
               None \<Rightarrow> (DDR_RC_ERROR, st)
             | Some loffset \<Rightarrow>
                 (DDR_RC_OK, updField newField (\<lambda>x. x\<lparr>f_offset := size_t_of_LONG loffset\<rparr>) st))
          else if locType = LocIsStatic then
            (let st1 = updField newField (\<lambda>x. x\<lparr>f_isStatic := True\<rparr>) st;
                 offset = (case get_offset (props symbol) of
                             None \<Rightarrow> 0 | Some loffset \<Rightarrow> size_t_of_LONG loffset)
             in (DDR_RC_OK, updField newField (\<lambda>x. x\<lparr>f_offset := offset\<rparr>) st1))
          else if locType = LocIsBitField then
            (case get_offset (props symbol) of
               None \<Rightarrow> (DDR_RC_ERROR, st)
             | Some loffset \<Rightarrow>
                 (case get_bitPosition (props symbol) of
                    None \<Rightarrow> (DDR_RC_ERROR, st)
                  | Some bitposition \<Rightarrow>
                      (let st1 = updField newField (\<lambda>x. x\<lparr>f_bitField := bitposition\<rparr>) st
                       in (DDR_RC_OK,
                           updField newField (\<lambda>x. x\<lparr>f_offset := size_t_of_LONG loffset\<rparr>) st1))))
          else (DDR_RC_ERROR, st))"

definition addModifierFlag :: "ModifierFlag \<Rightarrow> Modifiers \<Rightarrow> Modifiers" where
  "addModifierFlag fl m = m\<lparr>m_modifierFlags := insert fl (m_modifierFlags m)\<rparr>"

definition setTypeModifier ::
  "IDiaSymbol \<Rightarrow> ModifiersRef \<Rightarrow> PdbScanner \<Rightarrow> DDR_RC \<times> PdbScanner" where
  "setTypeModifier symbol modifiers st =
     (case get_constType (props symbol) of
        None \<Rightarrow> (DDR_RC_ERROR, st)
      | Some bConst \<Rightarrow>
          (let st1 = (if bConst then updModifiers modifiers (addModifierFlag CONST_TYPE) st else st)
           in case get_volatileType (props symbol) of
                None \<Rightarrow> (DDR_RC_ERROR, st1)
              | Some bVolatile \<Rightarrow>
                  (let st2 = (if bVolatile
                              then updModifiers modifiers (addModifierFlag VOLATILE_TYPE) st1
                              else st1)
                   in case get_unalignedType (props symbol) of
                        None \<Rightarrow> (DDR_RC_ERROR, st2)
                      | Some bUnaligned \<Rightarrow>
                          (DDR_RC_OK,
                           if bUnaligned
                           then updModifiers modifiers (addModifierFlag UNALIGNED_TYPE) st2
                           else st2))))"

definition setPointerType ::
  "IDiaSymbol \<Rightarrow> ModifiersRef \<Rightarrow> PdbScanner \<Rightarrow> DDR_RC \<times> PdbScanner" where
  "setPointerType symbol modifiers st =
     (case get_reference (props symbol) of
        None \<Rightarrow> (DDR_RC_ERROR, st)
      | Some bSet \<Rightarrow>
          if bSet
          then (DDR_RC_OK,
                updModifiers modifiers (\<lambda>m. m\<lparr>m_referenceCount := m_referenceCount m + 1\<rparr>) st)
          else (DDR_RC_OK,
                updModifiers modifiers (\<lambda>m. m\<lparr>m_pointerCount := m_pointerCount m + 1\<rparr>) st))"

text \<open>Modelled from the spec: \<open>Modifiers::addArrayDimension\<close> is not in the source file;
  it appends one array dimension (\<section>4.7).\<close>

definition addArrayDimension :: "ModifiersRef \<Rightarrow> nat \<Rightarrow> PdbScanner \<Rightarrow> PdbScanner" where
  "addArrayDimension modifiers n st =
     updModifiers modifiers (\<lambda>m. m\<lparr>m_arrayLengths := m_arrayLengths m @ [n]\<rparr>) st"

definition setBaseTypeInt :: "nat \<Rightarrow> TypeRef \<Rightarrow> PdbScanner \<Rightarrow> DDR_RC \<times> PdbScanner" where
  "setBaseTypeInt ulLen type st =
     (if ulLen = 1 then (DDR_RC_OK, writeRef type (getType st ''I8'') st)
      else if ulLen = 2 then (DDR_RC_OK, writeRef type (getType st ''I16'') st)
      else if ulLen = 4 then (DDR_RC_OK, writeRef type (getType st ''I32'') st)
      else if ulLen = 8 then (DDR_RC_OK, writeRef type (getType st ''I64'') st)
      else (DDR_RC_ERROR, st))"

definition setBaseTypeFloat :: "nat \<Rightarrow> TypeRef \<Rightarrow> PdbScanner \<Rightarrow> DDR_RC \<times> PdbScanner" where
  "setBaseTypeFloat ulLen type st =
     (if ulLen = 4 then (DDR_RC_OK, writeRef type (getType st ''float'') st)
      else if ulLen = 8 then (DDR_RC_OK, writeRef type (getType st ''double'') st)
      else (DDR_RC_ERROR, st))"

definition setBaseTypeUInt :: "nat \<Rightarrow> TypeRef \<Rightarrow> PdbScanner \<Rightarrow> DDR_RC \<times> PdbScanner" where
  "setBaseTypeUInt ulLen type st =
     (if ulLen = 1 then (DDR_RC_OK, writeRef type (getType st ''U8'') st)
      else if ulLen = 2 then (DDR_RC_OK, writeRef type (getType st ''U16'') st)
      else if ulLen = 4 then (DDR_RC_OK, writeRef type (getType st ''U32'') st)
      else if ulLen = 8 then (DDR_RC_OK, writeRef type (getType st ''U64'') st)
      else if ulLen = 16 then (DDR_RC_OK, writeRef type (getType st ''U128'') st)
      else (DDR_RC_ERROR, st))"

text \<open>The result is \<open>None\<close> where \<^verbatim>\<open>baseTypeArray[baseType]\<close> reads past the end of the
  array. The code \<^verbatim>\<open>0xFFFFFFFF\<close> marks a type that a width function has handled.\<close>

definition setBaseType :: "IDiaSymbol \<Rightarrow> TypeRef \<Rightarrow> PdbScanner \<Rightarrow> (DDR_RC \<times> PdbScanner) option" where
  "setBaseType typeSymbol type st =
     (case get_baseType (props typeSymbol) of
        None \<Rightarrow> Some (DDR_RC_ERROR, st)
      | Some baseType \<Rightarrow>
          (case getSize typeSymbol of
             (rc, ulLen) \<Rightarrow>
               if rc \<noteq> DDR_RC_OK then Some (rc, st)
               else if baseType = btUInt then Some (setBaseTypeUInt ulLen type st)
               else if baseType = btInt then Some (setBaseTypeInt ulLen type st)
               else if baseType = btFloat then Some (setBaseTypeFloat ulLen type st)
               else if baseType = 0xFFFFFFFF then Some (DDR_RC_OK, st)
               else if baseType < length baseTypeArray
               then Some (DDR_RC_OK, writeRef type (getType st (baseTypeArray ! baseType)) st)
               else None))"

subsection \<open>Superclasses and enums\<close>

text \<open>The owner \<open>newUDT\<close> is the class whose child the base-class symbol is. With a null
  owner and a name that is read and not empty, the code takes the address of
  \<^verbatim>\<open>newUDT->_superClass\<close> or assigns to it, which is undefined for a null pointer: the
  result is \<open>None\<close>.\<close>

definition setSuperClassName ::
  "IDiaSymbol \<Rightarrow> nat option \<Rightarrow> PdbScanner \<Rightarrow> (DDR_RC \<times> PdbScanner) option" where
  "setSuperClassName symbol newUDT st =
     (case getName symbol of
        (rc, nm) \<Rightarrow>
          if rc = DDR_RC_OK \<and> nm \<noteq> [] then
            (case newUDT of
               None \<Rightarrow> None
             | Some udt \<Rightarrow>
                 if typeMap st nm = None
                 then Some (DDR_RC_OK,
                        st\<lparr>postponedFields := postponedFields st @ [(SuperClassRef udt, nm)]\<rparr>)
                 else Some (DDR_RC_OK, writeRef (SuperClassRef udt) (typeMap st nm) st))
          else Some (DDR_RC_OK, st))"

text \<open>
  \<open>createEnumUDT\<close> and \<open>createClassUDT\<close> open with the same statements: the tag is
  checked, the name is read and looked up in the blacklist, the size is read. \<open>startUDT\<close>
  is that opening: it ends the function with a return code, or goes on with the name and
  the size.
\<close>

datatype UDTStart = Return DDR_RC | Proceed string nat

definition startUDT :: "SymTagEnum \<Rightarrow> IDiaSymbol \<Rightarrow> PdbScanner \<Rightarrow> UDTStart" where
  "startUDT expected symbol st =
     (case get_symTag (props symbol) of
        None \<Rightarrow> Return DDR_RC_ERROR
      | Some symTag \<Rightarrow>
          if symTag \<noteq> expected then Return DDR_RC_ERROR
          else if fst (getName symbol) \<noteq> DDR_RC_OK then Return (fst (getName symbol))
          else if checkBlacklistedType st (snd (getName symbol)) then Return DDR_RC_OK
          else if fst (getSize symbol) \<noteq> DDR_RC_OK then Return (fst (getSize symbol))
          else Proceed (snd (getName symbol)) (snd (getSize symbol)))"

text \<open>\<^verbatim>\<open>fullName\<close>: the name behind the name of the owner that was passed in.\<close>

definition qualifiedName :: "nat option \<Rightarrow> string \<Rightarrow> PdbScanner \<Rightarrow> string" where
  "qualifiedName outer nm st =
     (case outer of None \<Rightarrow> nm | Some ou \<Rightarrow> t_name (typeStore st ou) @ ''::'' @ nm)"

text \<open>The test that selects the branch which creates a node.\<close>

definition firstSighting :: "PdbScanner \<Rightarrow> string \<Rightarrow> string \<Rightarrow> bool" where
  "firstSighting st fullName nm =
     (fullName = [] \<or> typeMap st fullName = None \<or> nm = ''<unnamed-tag>'')"

text \<open>\<^verbatim>\<open>if (NULL != outer) outer->_subUDTs.push_back(t)\<close>, and the statement of the merge
  branches that gives a node without owner the owner that was passed in.\<close>

definition pushSubUDT :: "nat option \<Rightarrow> nat \<Rightarrow> PdbScanner \<Rightarrow> PdbScanner" where
  "pushSubUDT outer t st =
     (case outer of
        None \<Rightarrow> st
      | Some ou \<Rightarrow> updType ou (\<lambda>x. x\<lparr>t_subUDTs := t_subUDTs x @ [t]\<rparr>) st)"

definition adopt :: "nat option \<Rightarrow> nat \<Rightarrow> PdbScanner \<Rightarrow> PdbScanner" where
  "adopt outer t st =
     (case outer of
        None \<Rightarrow> st
      | Some ou \<Rightarrow>
          if t_outerNamespace (typeStore st t) = None
          then updType ou (\<lambda>x. x\<lparr>t_subUDTs := t_subUDTs x @ [t]\<rparr>)
                 (updType t (\<lambda>x. x\<lparr>t_outerNamespace := Some ou\<rparr>) st)
          else st)"

fun addEnumMembersLoop :: "IDiaSymbol list \<Rightarrow> nat \<Rightarrow> PdbScanner \<Rightarrow> DDR_RC \<times> PdbScanner" where
  "addEnumMembersLoop [] enumUDT st = (DDR_RC_OK, st)"
| "addEnumMembersLoop (childSymbol # rest) enumUDT st =
     (case getName childSymbol of
        (rc, nm) \<Rightarrow>
          if rc = DDR_RC_OK
          then addEnumMembersLoop rest enumUDT
                 (updType enumUDT (\<lambda>x. x\<lparr>t_enumMembers := t_enumMembers x @ [nm]\<rparr>) st)
          else (rc, st))"

definition addEnumMembers :: "IDiaSymbol \<Rightarrow> nat \<Rightarrow> PdbScanner \<Rightarrow> DDR_RC \<times> PdbScanner" where
  "addEnumMembers symbol enumUDT st =
     (case findChildren SymTagNull symbol of
        None \<Rightarrow> (DDR_RC_ERROR, st)
      | Some enumSymbols \<Rightarrow> addEnumMembersLoop enumSymbols enumUDT st)"

text \<open>The two branches of \<open>createEnumUDT\<close>: a new enum, and an enum that is registered
  already.\<close>

definition registerEnumUDT ::
  "nat \<Rightarrow> nat option \<Rightarrow> DDR_RC \<times> PdbScanner \<Rightarrow> (DDR_RC \<times> PdbScanner) option" where
  "registerEnumUDT enumUDT outerNamespace r =
     (case r of
        (rc, st) \<Rightarrow>
          if rc = DDR_RC_OK then
            map_option (Pair DDR_RC_OK)
              (addType enumUDT (outerNamespace = None)
                 (pushSubUDT outerNamespace enumUDT
                    (updType enumUDT (\<lambda>x. x\<lparr>t_outerNamespace := outerNamespace\<rparr>) st)))
          else Some (rc, st))"

definition newEnumUDT ::
  "IDiaSymbol \<Rightarrow> string \<Rightarrow> nat option \<Rightarrow> PdbScanner \<Rightarrow> (DDR_RC \<times> PdbScanner) option" where
  "newEnumUDT symbol nm outerNamespace st =
     (case getNamespaceFromName nm outerNamespace st of
        None \<Rightarrow> None
      | Some (nm1, outerNamespace1, st1) \<Rightarrow>
          (let (enumUDT, st2) = allocType EnumUDT 0 st1
           in registerEnumUDT enumUDT outerNamespace1
                (addEnumMembers symbol enumUDT
                   (updType enumUDT (\<lambda>x. x\<lparr>t_name := nm1\<rparr>) st2))))"

definition mergeEnumUDT ::
  "IDiaSymbol \<Rightarrow> string \<Rightarrow> nat option \<Rightarrow> PdbScanner \<Rightarrow> (DDR_RC \<times> PdbScanner) option" where
  "mergeEnumUDT symbol fullName outerNamespace st =
     (case getType st fullName of
        None \<Rightarrow> None
      | Some enumUDT \<Rightarrow>
          (let st1 = adopt outerNamespace enumUDT st
           in if t_enumMembers (typeStore st1 enumUDT) = []
              then Some (addEnumMembers symbol enumUDT st1)
              else Some (DDR_RC_OK, st1)))"

definition createEnumUDT ::
  "IDiaSymbol \<Rightarrow> nat option \<Rightarrow> PdbScanner \<Rightarrow> (DDR_RC \<times> PdbScanner) option" where
  "createEnumUDT symbol outerNamespace st =
     (case startUDT SymTagEnum symbol st of
        Return rc \<Rightarrow> Some (rc, st)
      | Proceed nm sz \<Rightarrow>
          if firstSighting st (qualifiedName outerNamespace nm st) nm
          then newEnumUDT symbol nm outerNamespace st
          else mergeEnumUDT symbol (qualifiedName outerNamespace nm st) outerNamespace st)"

subsection \<open>The pieces of the class builder, the field builder and the typedef builder\<close>

text \<open>The loop \<^verbatim>\<open>while (NULL != t->getBaseType()) t = t->getBaseType()\<close> of the merge
  branch. It is bounded by the number of allocated nodes: it can only run longer on a cycle
  of typedefs, where the C++ loop does not end.\<close>

fun followBaseType :: "nat \<Rightarrow> PdbScanner \<Rightarrow> nat \<Rightarrow> nat option" where
  "followBaseType 0 st t = None"
| "followBaseType (Suc n) st t =
     (case getBaseType st t of None \<Rightarrow> Some t | Some b \<Rightarrow> followBaseType n st b)"

text \<open>The first-sighting branch of \<open>createClassUDT\<close> up to the call of
  \<open>addChildrenSymbols\<close>, and what follows the call.\<close>

definition newClassUDT ::
  "string \<Rightarrow> nat \<Rightarrow> nat option \<Rightarrow> PdbScanner \<Rightarrow> (nat \<times> PdbScanner) option" where
  "newClassUDT nm sz outerUDT st =
     (case getNamespaceFromName nm outerUDT st of
        None \<Rightarrow> None
      | Some (nm1, outerUDT1, st1) \<Rightarrow>
          (let (classUDT, st2) = allocType ClassUDT 0 st1
           in Some (classUDT,
                pushSubUDT outerUDT1 classUDT
                  (updType classUDT
                     (\<lambda>x. x\<lparr>t_sizeOf := sz, t_name := nm1, t_outerNamespace := outerUDT1\<rparr>)
                     st2))))"

definition registerClassUDT ::
  "nat \<Rightarrow> DDR_RC \<times> PdbScanner \<Rightarrow> (DDR_RC \<times> PdbScanner) option" where
  "registerClassUDT classUDT r =
     (case r of
        (rc, st) \<Rightarrow>
          if rc = DDR_RC_OK then
            map_option (Pair DDR_RC_OK)
              (addType classUDT (t_outerNamespace (typeStore st classUDT) = None) st)
          else Some (rc, st))"

text \<open>The merge branch of \<open>createClassUDT\<close> up to the call of \<open>addChildrenSymbols\<close>.\<close>

definition previousClassUDT ::
  "string \<Rightarrow> nat option \<Rightarrow> PdbScanner \<Rightarrow> (nat \<times> PdbScanner) option" where
  "previousClassUDT fullName outerUDT st =
     (case getType st fullName of
        None \<Rightarrow> None
      | Some previouslyCreatedType \<Rightarrow>
          (case followBaseType (nextType st) st previouslyCreatedType of
             None \<Rightarrow> None
           | Some classUDT \<Rightarrow> Some (classUDT, adopt outerUDT classUDT st)))"

text \<open>The head of the body of the first loop of \<open>addChildrenSymbols\<close>: the tag of the
  child, and its name when it is an enum or a class.\<close>

definition childTagAndName :: "IDiaSymbol \<Rightarrow> DDR_RC \<times> SymTagEnum \<times> string" where
  "childTagAndName child =
     (case get_symTag (props child) of
        None \<Rightarrow> (DDR_RC_ERROR, SymTagNull, [])
      | Some symTag \<Rightarrow>
          if symTag = SymTagEnum \<or> symTag = SymTagUDT
          then (fst (getName child), symTag, snd (getName child))
          else (DDR_RC_OK, symTag, []))"

text \<open>The flags \<^verbatim>\<open>alreadyHadFields\<close> and \<^verbatim>\<open>alreadyCheckedFields\<close> after the check at the
  first data member; \<open>None\<close> where the check reads the field list of a null owner.\<close>

definition checkFields ::
  "nat option \<Rightarrow> SymTagEnum \<Rightarrow> bool \<Rightarrow> bool \<Rightarrow> PdbScanner \<Rightarrow> (bool \<times> bool) option" where
  "checkFields outerNamespace symTag alreadyHadFields alreadyCheckedFields st =
     (if \<not> alreadyCheckedFields \<and> symTag = SymTagData then
        (case outerNamespace of
           None \<Rightarrow> None
         | Some ns \<Rightarrow> Some (t_fieldMembers (typeStore st ns) \<noteq> [], True))
      else Some (alreadyHadFields, alreadyCheckedFields))"

text \<open>\<open>addFieldMember\<close> up to the call of \<open>setType\<close>, and the statement behind it.\<close>

definition beginField :: "IDiaSymbol \<Rightarrow> PdbScanner \<Rightarrow> DDR_RC \<times> nat \<times> PdbScanner" where
  "beginField symbol st =
     (let (newField, st0) = allocField st in
      case getName symbol of
        (rc, nm) \<Rightarrow>
          if rc \<noteq> DDR_RC_OK then (rc, newField, st0)
          else (case setMemberOffset symbol newField
                       (updField newField (\<lambda>x. x\<lparr>f_name := nm\<rparr>) st0) of
                  (rc1, st1) \<Rightarrow> (rc1, newField, st1)))"

definition pushField ::
  "nat option \<Rightarrow> nat \<Rightarrow> DDR_RC \<times> PdbScanner \<Rightarrow> (DDR_RC \<times> PdbScanner) option" where
  "pushField udt newField r =
     (case r of
        (rc, st) \<Rightarrow>
          if rc \<noteq> DDR_RC_OK then Some (rc, st)
          else (case udt of
                  None \<Rightarrow> None
                | Some u \<Rightarrow>
                    Some (DDR_RC_OK,
                      updType u (\<lambda>x. x\<lparr>t_fieldMembers := t_fieldMembers x @ [newField]\<rparr>) st)))"

text \<open>The loop of \<open>createTypedef\<close> that follows \<^verbatim>\<open>get_type\<close> past arrays and pointers.
  It is left only with a tag of a class, an enum, a base type or a function type: when
  \<^verbatim>\<open>get_type\<close> or \<^verbatim>\<open>get_symTag\<close> fails, the tag stays as it is, no later iteration reads
  it again, and the loop never ends (\<open>None\<close>).\<close>

fun typedefBaseSymbol :: "IDiaSymbol \<Rightarrow> (IDiaSymbol \<times> SymTagEnum) option" where
  "typedefBaseSymbol (IDiaSymbol p ty ch) =
     (case ty of
        None \<Rightarrow> None
      | Some baseSymbol \<Rightarrow>
          (case get_symTag (props baseSymbol) of
             None \<Rightarrow> None
           | Some symTag \<Rightarrow>
               if symTag = SymTagUDT \<or> symTag = SymTagEnum \<or> symTag = SymTagBaseType
                  \<or> symTag = SymTagFunctionType
               then Some (baseSymbol, symTag)
               else typedefBaseSymbol baseSymbol))"

text \<open>\<open>createTypedef\<close> up to the construction of the node: the two blacklist checks. The
  result is \<open>None\<close> when the loop does not end, a return code alone when the function
  returns without a node, and the name of the typedef when it goes on.\<close>

definition typedefBaseName :: "IDiaSymbol \<times> SymTagEnum \<Rightarrow> DDR_RC \<times> string" where
  "typedefBaseName b =
     (case b of
        (baseSymbol, symTag) \<Rightarrow>
          if symTag = SymTagUDT \<or> symTag = SymTagEnum then getName baseSymbol
          else (DDR_RC_OK, []))"

definition startTypedef ::
  "IDiaSymbol \<Rightarrow> PdbScanner \<Rightarrow> (DDR_RC \<times> string option) option" where
  "startTypedef symbol st =
     (case getName symbol of
        (rc, typedefName) \<Rightarrow>
          if rc = DDR_RC_OK \<and> \<not> checkBlacklistedType st typedefName then
            (case typedefBaseSymbol symbol of
               None \<Rightarrow> None
             | Some b \<Rightarrow>
                 if fst (typedefBaseName b) = DDR_RC_OK
                    \<and> \<not> checkBlacklistedType st (snd (typedefBaseName b))
                 then Some (DDR_RC_OK, Some typedefName)
                 else Some (fst (typedefBaseName b), None))
          else Some (rc, None))"

definition newTypedefUDT :: "string \<Rightarrow> nat option \<Rightarrow> PdbScanner \<Rightarrow> nat \<times> PdbScanner" where
  "newTypedefUDT typedefName outerNamespace st =
     (let (newTypedef, st1) = allocType TypedefUDT 0 st
      in (newTypedef,
          pushSubUDT outerNamespace newTypedef
            (updType newTypedef
               (\<lambda>x. x\<lparr>t_name := typedefName, t_aliasedType := None,
                       t_outerNamespace := outerNamespace\<rparr>) st1)))"

text \<open>What follows the call of \<open>setType\<close> in \<open>createTypedef\<close>. The size is copied from the
  aliased type: the result is \<open>None\<close> where \<^verbatim>\<open>_aliasedType\<close> is null.\<close>

definition finishTypedef ::
  "nat \<Rightarrow> nat option \<Rightarrow> DDR_RC \<times> PdbScanner \<Rightarrow> (DDR_RC \<times> PdbScanner) option" where
  "finishTypedef newTypedef outerNamespace r =
     (case r of
        (rc, st) \<Rightarrow>
          if rc = DDR_RC_OK then
            (case t_aliasedType (typeStore st newTypedef) of
               None \<Rightarrow> None
             | Some aliased \<Rightarrow>
                 map_option (Pair DDR_RC_OK)
                   (addType newTypedef (outerNamespace = None)
                      (updType newTypedef
                         (\<lambda>x. x\<lparr>t_sizeOf := t_sizeOf (typeStore st aliased)\<rparr>) st)))
          else Some (rc, st))"

text \<open>The statements of \<open>setTypeUDT\<close> behind the call of \<open>createClassUDT\<close> for an
  anonymous type: the last sub-UDT of the owner is bound and loses its name. The result is
  \<open>None\<close> where \<^verbatim>\<open>back()\<close> is called on an empty list.\<close>

definition bindLastSubUDT ::
  "TypeRef \<Rightarrow> nat \<Rightarrow> DDR_RC \<times> PdbScanner \<Rightarrow> (DDR_RC \<times> PdbScanner) option" where
  "bindLastSubUDT type outerUDT r =
     (case r of
        (rc, st) \<Rightarrow>
          if rc = DDR_RC_OK then
            (if t_subUDTs (typeStore st outerUDT) = [] then None
             else Some (DDR_RC_OK,
                    updType (last (t_subUDTs (typeStore st outerUDT))) (\<lambda>x. x\<lparr>t_name := []\<rparr>)
                      (writeRef type (Some (last (t_subUDTs (typeStore st outerUDT)))) st)))
          else Some (rc, st))"

definition postpone :: "TypeRef \<Rightarrow> string \<Rightarrow> PdbScanner \<Rightarrow> PdbScanner" where
  "postpone type nm st = st\<lparr>postponedFields := postponedFields st @ [(type, nm)]\<rparr>"

subsection \<open>Classes, fields, typedefs and the dispatcher\<close>

lemma size_list_filter_le:
  "size_list size (filter P xs) \<le> size_list size xs" for xs :: "IDiaSymbol list"
  by (induction xs) auto

lemma size_findChildren:
  assumes "findChildren symTag symbol = Some cs"
  shows "size_list size cs < size symbol"
proof (cases symbol)
  case (IDiaSymbol p ty ch)
  with assms obtain every where ch: "ch = Some every"
    and cs: "cs = filter (\<lambda>c. symTag = SymTagNull \<or> get_symTag (props c) = Some symTag) every"
    by (auto simp: findChildren_def)
  have "size_list size cs \<le> size_list size every" unfolding cs by (rule size_list_filter_le)
  with ch IDiaSymbol show ?thesis by simp
qed

lemma size_get_type: "get_type symbol = Some t \<Longrightarrow> size t < size symbol"
  by (cases symbol) auto

lemma size_nth_child:
  "i < length cs \<Longrightarrow> size (cs ! i) < size_list size cs" for cs :: "IDiaSymbol list"
proof (induction cs arbitrary: i)
  case Nil
  then show ?case by simp
next
  case (Cons c cs)
  show ?case
  proof (cases i)
    case 0
    then show ?thesis by simp
  next
    case (Suc n)
    with Cons.prems have "n < length cs" by simp
    then have "size (cs ! n) < size_list size cs" by (rule Cons.IH)
    with Suc show ?thesis by simp
  qed
qed

text \<open>
  The functions that call each other through the symbol tree. \<open>addChildrenLoop\<close> is the
  first loop of \<open>addChildrenSymbols\<close> (over the children, with the index and the three
  flags), \<open>addInnerTypes\<close> its second loop (over the buffered indices). The first loop
  drops the return code of \<open>addSymbol\<close> and keeps its effect; \<open>addSymbol\<close> drops the
  return code of \<open>createTypedef\<close>.
\<close>

function
  addSymbol :: "IDiaSymbol \<Rightarrow> nat option \<Rightarrow> PdbScanner \<Rightarrow> (DDR_RC \<times> PdbScanner) option"
and createClassUDT ::
  "IDiaSymbol \<Rightarrow> nat option \<Rightarrow> PdbScanner \<Rightarrow> (DDR_RC \<times> PdbScanner) option"
and addChildrenSymbols ::
  "IDiaSymbol \<Rightarrow> SymTagEnum \<Rightarrow> nat option \<Rightarrow> PdbScanner \<Rightarrow> (DDR_RC \<times> PdbScanner) option"
and addChildrenLoop ::
  "nat option \<Rightarrow> IDiaSymbol list \<Rightarrow> nat \<Rightarrow> bool \<Rightarrow> bool \<Rightarrow> bool \<Rightarrow> nat list \<Rightarrow> PdbScanner
     \<Rightarrow> (DDR_RC \<times> nat list \<times> PdbScanner) option"
and addInnerTypes ::
  "IDiaSymbol list \<Rightarrow> nat list \<Rightarrow> PdbScanner \<Rightarrow> (DDR_RC \<times> PdbScanner) option"
and addFieldMember ::
  "IDiaSymbol \<Rightarrow> nat option \<Rightarrow> PdbScanner \<Rightarrow> (DDR_RC \<times> PdbScanner) option"
and createTypedef ::
  "IDiaSymbol \<Rightarrow> nat option \<Rightarrow> PdbScanner \<Rightarrow> (DDR_RC \<times> PdbScanner) option"
and setType ::
  "IDiaSymbol \<Rightarrow> TypeRef \<Rightarrow> ModifiersRef \<Rightarrow> nat option \<Rightarrow> PdbScanner
     \<Rightarrow> (DDR_RC \<times> PdbScanner) option"
and setTypeUDT ::
  "IDiaSymbol \<Rightarrow> TypeRef \<Rightarrow> nat option \<Rightarrow> PdbScanner \<Rightarrow> (DDR_RC \<times> PdbScanner) option"
where
  "addSymbol symbol outerNamespace st =
     (case get_symTag (props symbol) of
        None \<Rightarrow> Some (DDR_RC_ERROR, st)
      | Some symTag \<Rightarrow>
          if symTag = SymTagEnum then createEnumUDT symbol outerNamespace st
          else if symTag = SymTagUDT then createClassUDT symbol outerNamespace st
          else if symTag = SymTagData then addFieldMember symbol outerNamespace st
          else if symTag = SymTagBaseClass then setSuperClassName symbol outerNamespace st
          else if symTag = SymTagVTableShape \<or> symTag = SymTagVTable \<or> symTag = SymTagFunction
          then Some (DDR_RC_OK, st)
          else if symTag = SymTagTypedef then
            (if outerNamespace = None
             then map_option (\<lambda>r. (DDR_RC_OK, snd r)) (createTypedef symbol outerNamespace st)
             else Some (DDR_RC_OK, st))
          else Some (DDR_RC_ERROR, st))"
| "createClassUDT symbol outerUDT st =
     (case startUDT SymTagUDT symbol st of
        Return rc \<Rightarrow> Some (rc, st)
      | Proceed nm sz \<Rightarrow>
          if firstSighting st (qualifiedName outerUDT nm st) nm then
            (case newClassUDT nm sz outerUDT st of
               None \<Rightarrow> None
             | Some (classUDT, st1) \<Rightarrow>
                 (case addChildrenSymbols symbol SymTagNull (Some classUDT) st1 of
                    None \<Rightarrow> None
                  | Some r \<Rightarrow> registerClassUDT classUDT r))
          else
            (case previousClassUDT (qualifiedName outerUDT nm st) outerUDT st of
               None \<Rightarrow> None
             | Some (classUDT, st1) \<Rightarrow>
                 addChildrenSymbols symbol SymTagNull (Some classUDT) st1))"
| "addChildrenSymbols symbol symTag outerNamespace st =
     (case findChildren symTag symbol of
        None \<Rightarrow> Some (DDR_RC_ERROR, st)
      | Some childSymbols \<Rightarrow>
          (case addChildrenLoop outerNamespace childSymbols 0 False False
                  (case outerNamespace of
                     None \<Rightarrow> False
                   | Some ns \<Rightarrow> t_subUDTs (typeStore st ns) \<noteq> [])
                  [] st of
             None \<Rightarrow> None
           | Some (rc, innerTypeSymbols, st1) \<Rightarrow>
               if rc = DDR_RC_OK then addInnerTypes childSymbols innerTypeSymbols st1
               else Some (rc, st1)))"
| "addChildrenLoop outerNamespace [] index alreadyHadFields alreadyCheckedFields
       alreadyHadSubtypes innerTypeSymbols st =
     Some (DDR_RC_OK, innerTypeSymbols, st)"
| "addChildrenLoop outerNamespace (child # rest) index alreadyHadFields alreadyCheckedFields
       alreadyHadSubtypes innerTypeSymbols st =
     (case childTagAndName child of
        (rc, symTag, udtName) \<Rightarrow>
          if rc \<noteq> DDR_RC_OK then Some (rc, innerTypeSymbols, st)
          else if outerNamespace = None \<or> str_find udtName ''::'' 0 = None then
            (case checkFields outerNamespace symTag alreadyHadFields alreadyCheckedFields st of
               None \<Rightarrow> None
             | Some (hadFields, checkedFields) \<Rightarrow>
                 if (symTag = SymTagData \<and> \<not> hadFields)
                    \<or> (symTag \<noteq> SymTagData \<and> \<not> alreadyHadSubtypes)
                 then
                   (case addSymbol child outerNamespace st of
                      None \<Rightarrow> None
                    | Some r \<Rightarrow>
                        addChildrenLoop outerNamespace rest (index + 1) hadFields checkedFields
                          alreadyHadSubtypes innerTypeSymbols (snd r))
                 else
                   addChildrenLoop outerNamespace rest (index + 1) hadFields checkedFields
                     alreadyHadSubtypes innerTypeSymbols st)
          else
            addChildrenLoop outerNamespace rest (index + 1) alreadyHadFields
              alreadyCheckedFields alreadyHadSubtypes (innerTypeSymbols @ [index]) st)"
| "addInnerTypes childSymbols [] st = Some (DDR_RC_OK, st)"
| "addInnerTypes childSymbols (i # rest) st =
     (if i < length childSymbols then
        (case addSymbol (childSymbols ! i) None st of
           None \<Rightarrow> None
         | Some (rc, st1) \<Rightarrow>
             if rc = DDR_RC_OK then addInnerTypes childSymbols rest st1 else Some (rc, st1))
      else None)"
| "addFieldMember symbol udt st =
     (case beginField symbol st of
        (rc, newField, st1) \<Rightarrow>
          if rc \<noteq> DDR_RC_OK then Some (rc, st1)
          else
            (case setType symbol (FieldTypeRef newField) (FieldModifiers newField) udt st1 of
               None \<Rightarrow> None
             | Some r \<Rightarrow> pushField udt newField r))"
| "createTypedef symbol outerNamespace st =
     (case startTypedef symbol st of
        None \<Rightarrow> None
      | Some (rc, None) \<Rightarrow> Some (rc, st)
      | Some (rc, Some typedefName) \<Rightarrow>
          (case newTypedefUDT typedefName outerNamespace st of
             (newTypedef, st1) \<Rightarrow>
               (case setType symbol (AliasedTypeRef newTypedef) (TypedefModifiers newTypedef)
                       None st1 of
                  None \<Rightarrow> None
                | Some r \<Rightarrow> finishTypedef newTypedef outerNamespace r)))"
| "setType symbol type modifiers outerUDT st =
     (case get_type symbol of
        None \<Rightarrow> None
      | Some typeSymbol \<Rightarrow>
          (case setTypeModifier typeSymbol modifiers st of
             (rc, st1) \<Rightarrow>
               if rc \<noteq> DDR_RC_OK then Some (rc, st1)
               else
                 (case get_symTag (props typeSymbol) of
                    None \<Rightarrow> Some (DDR_RC_ERROR, st1)
                  | Some symTag \<Rightarrow>
                      if symTag = SymTagEnum \<or> symTag = SymTagUDT
                      then setTypeUDT typeSymbol type outerUDT st1
                      else if symTag = SymTagArrayType then
                        (case get_count (props typeSymbol) of
                           None \<Rightarrow> Some (DDR_RC_ERROR, st1)
                         | Some n \<Rightarrow>
                             setType typeSymbol type modifiers outerUDT
                               (addArrayDimension modifiers n st1))
                      else if symTag = SymTagPointerType then
                        (if fst (setPointerType symbol modifiers st1) = DDR_RC_OK
                         then setType typeSymbol type modifiers outerUDT
                                (snd (setPointerType symbol modifiers st1))
                         else Some (setPointerType symbol modifiers st1))
                      else if symTag = SymTagBaseType then setBaseType typeSymbol type st1
                      else if symTag = SymTagFunctionType
                      then Some (DDR_RC_OK, writeRef type (getType st1 ''void'') st1)
                      else Some (DDR_RC_ERROR, st1))))"
| "setTypeUDT typeSymbol type outerUDT st =
     (case get_udtKind (props typeSymbol) of
        None \<Rightarrow> Some (DDR_RC_ERROR, st)
      | Some udtKind \<Rightarrow>
          (case getName typeSymbol of
             (rc, nm) \<Rightarrow>
               if rc \<noteq> DDR_RC_OK then Some (rc, st)
               else if nm \<noteq> [] \<and> typeMap st nm \<noteq> None
               then Some (DDR_RC_OK, writeRef type (typeMap st nm) st)
               else if nm = ''<unnamed-tag>'' \<and> outerUDT \<noteq> None then
                 (case createClassUDT typeSymbol outerUDT st of
                    None \<Rightarrow> None
                  | Some r \<Rightarrow> bindLastSubUDT type (the outerUDT) r)
               else if nm \<noteq> [] then Some (DDR_RC_OK, postpone type nm st)
               else Some (DDR_RC_OK, st)))"
  by pat_completeness auto
termination
  apply (relation "inv_image (less_than <*lex*> less_than)
     (\<lambda>x. case x of
        Inl (Inl (Inl (symbol, outerNamespace, st))) \<Rightarrow> (size symbol, 5)
      | Inl (Inl (Inr (symbol, outerUDT, st))) \<Rightarrow> (size symbol, 3)
      | Inl (Inr (Inl (symbol, symTag, outerNamespace, st))) \<Rightarrow> (size symbol, 2)
      | Inl (Inr (Inr (outerNamespace, cs, rest))) \<Rightarrow> (size_list size cs, 1)
      | Inr (Inl (Inl (cs, is, st))) \<Rightarrow> (size_list size cs, Suc (length is))
      | Inr (Inl (Inr (symbol, udt, st))) \<Rightarrow> (size symbol, 3)
      | Inr (Inr (Inl (symbol, outerNamespace, st))) \<Rightarrow> (size symbol, 3)
      | Inr (Inr (Inr (Inl (symbol, type, modifiers, outerUDT, st)))) \<Rightarrow> (size symbol, 2)
      | Inr (Inr (Inr (Inr (typeSymbol, type, outerUDT, st)))) \<Rightarrow> (size typeSymbol, 4))")
  apply (auto simp: size_findChildren size_get_type size_nth_child)
  done

declare addSymbol.simps [simp del] createClassUDT.simps [simp del]
  addChildrenSymbols.simps [simp del] addChildrenLoop.simps [simp del]
  addInnerTypes.simps [simp del] addFieldMember.simps [simp del]
  createTypedef.simps [simp del] setType.simps [simp del] setTypeUDT.simps [simp del]

subsection \<open>Postponed references and anonymous types\<close>

fun patchPostponed :: "(TypeRef \<times> string) list \<Rightarrow> PdbScanner \<Rightarrow> PdbScanner" where
  "patchPostponed [] st = st"
| "patchPostponed ((type, nm) # rest) st =
     (if typeMap st nm \<noteq> None then patchPostponed rest (writeRef type (typeMap st nm) st)
      else
        (let (placeholder, st1) = allocType ClassUDT 0 st;
             st2 = writeRef type (Some placeholder) st1
         in patchPostponed rest (updType placeholder (\<lambda>x. x\<lparr>t_name := nm\<rparr>) st2)))"

definition updatePostponedFieldNames :: "PdbScanner \<Rightarrow> DDR_RC \<times> PdbScanner" where
  "updatePostponedFieldNames st = (DDR_RC_OK, patchPostponed (postponedFields st) st)"

text \<open>The counter of the renamer is a \<^verbatim>\<open>ULONGLONG\<close>: it wraps at \<open>2 ^ 64\<close>.\<close>

definition renameOne :: "nat \<Rightarrow> nat \<times> PdbScanner \<Rightarrow> nat \<times> PdbScanner" where
  "renameOne type cs =
     (case cs of
        (unnamedTypeCount, st) \<Rightarrow>
          if str_find (t_name (typeStore st type)) ''<unnamed-type-'' 0 \<noteq> None
             \<or> t_name (typeStore st type) = ''<unnamed-tag>''
          then
            (if getNamespace st type = None
                \<and> str_find (t_name (typeStore st type)) ''::'' 0 = None
             then ((unnamedTypeCount + 1) mod 2 ^ 64,
                   updType type (\<lambda>x. x\<lparr>t_name := ''AnonymousType'' @ decimal unnamedTypeCount\<rparr>) st)
             else (unnamedTypeCount, updType type (\<lambda>x. x\<lparr>t_name := []\<rparr>) st))
          else (unnamedTypeCount, st))"

text \<open>The recursion of \<open>renameAnonymousType\<close> follows the sub-UDT lists of the store. Its
  depth is bounded by \<open>depth\<close>; the result is \<open>None\<close> when the bound is reached, as it is on
  a cycle of sub-UDT links for every bound.\<close>

fun renameAnonymousType :: "nat \<Rightarrow> nat \<Rightarrow> nat \<times> PdbScanner \<Rightarrow> (nat \<times> PdbScanner) option"
and renameSubUDTs :: "nat \<Rightarrow> nat list \<Rightarrow> nat \<times> PdbScanner \<Rightarrow> (nat \<times> PdbScanner) option"
where
  "renameAnonymousType 0 type cs = None"
| "renameAnonymousType (Suc depth) type cs =
     (let cs1 = renameOne type cs in
      case getSubUDTS (snd cs1) type of
        None \<Rightarrow> Some cs1
      | Some subUDTs \<Rightarrow> renameSubUDTs depth subUDTs cs1)"
| "renameSubUDTs depth [] cs = Some cs"
| "renameSubUDTs depth (t # rest) cs =
     (case renameAnonymousType depth t cs of
        None \<Rightarrow> None
      | Some cs1 \<Rightarrow> renameSubUDTs depth rest cs1)"

definition renameAnonymousTypes :: "nat \<Rightarrow> PdbScanner \<Rightarrow> PdbScanner option" where
  "renameAnonymousTypes depth st =
     map_option snd (renameSubUDTs depth (ir_types st) (0, st))"

subsection \<open>The scan\<close>

text \<open>One debug file, by what the calls of \<open>loadDataFromPdb\<close> return for it: whether the
  data source is created, whether the file loads, whether the session opens, and the global
  scope (\<open>None\<close> when \<^verbatim>\<open>get_globalScope\<close> fails).\<close>

record PdbFile =
  createInstance_ok :: bool
  loadDataFromPdb_ok :: bool
  openSession_ok :: bool
  get_globalScope :: "IDiaSymbol option"

text \<open>The result of \<open>loadDataFromPdb\<close>: the return code, whether the data source and the
  session were handed out, and the global symbol.\<close>

definition loadDataFromPdb :: "PdbFile \<Rightarrow> DDR_RC \<times> bool \<times> bool \<times> IDiaSymbol option" where
  "loadDataFromPdb file =
     (if \<not> createInstance_ok file then (DDR_RC_ERROR, False, False, None)
      else if \<not> loadDataFromPdb_ok file then (DDR_RC_ERROR, True, False, None)
      else if \<not> openSession_ok file then (DDR_RC_ERROR, True, False, None)
      else (case get_globalScope file of
              None \<Rightarrow> (DDR_RC_ERROR, True, True, None)
            | Some symbol \<Rightarrow> (DDR_RC_OK, True, True, Some symbol)))"

text \<open>The scanner counts the handles of the current file that it holds: the data source,
  the session and the global symbol, each when it is not null.\<close>

definition handleCount :: "bool \<Rightarrow> bool \<Rightarrow> IDiaSymbol option \<Rightarrow> nat" where
  "handleCount diaDataSource diaSession diaSymbol =
     (if diaDataSource then 1 else 0) + (if diaSession then 1 else 0)
       + (if diaSymbol \<noteq> None then 1 else 0)"

definition acquire :: "nat \<Rightarrow> PdbScanner \<Rightarrow> PdbScanner" where
  "acquire n st = st\<lparr>handlesHeld := handlesHeld st + n\<rparr>"

definition release :: "nat \<Rightarrow> PdbScanner \<Rightarrow> PdbScanner" where
  "release n st = st\<lparr>handlesHeld := handlesHeld st - n\<rparr>"

text \<open>One of the three passes over the global scope: it runs when the return code so far
  is \<open>DDR_RC_OK\<close>.\<close>

definition scanPass ::
  "SymTagEnum \<Rightarrow> IDiaSymbol option \<Rightarrow> (DDR_RC \<times> PdbScanner) option
     \<Rightarrow> (DDR_RC \<times> PdbScanner) option" where
  "scanPass symTag diaSymbol r =
     (case r of
        None \<Rightarrow> None
      | Some (rc, st) \<Rightarrow>
          if rc = DDR_RC_OK
          then (case diaSymbol of
                  None \<Rightarrow> None
                | Some symbol \<Rightarrow> addChildrenSymbols symbol symTag None st)
          else Some (rc, st))"

text \<open>The body of the loop over the debug files, and the loop. The second component of the
  result of \<open>scanFiles\<close> is the list of the files that the loop reached.\<close>

definition scanFile :: "PdbFile \<Rightarrow> PdbScanner \<Rightarrow> (DDR_RC \<times> PdbScanner) option" where
  "scanFile file st =
     (case loadDataFromPdb file of
        (rc, diaDataSource, diaSession, diaSymbol) \<Rightarrow>
          map_option
            (\<lambda>r. (fst r, release (handleCount diaDataSource diaSession diaSymbol) (snd r)))
            (scanPass SymTagTypedef diaSymbol
               (scanPass SymTagEnum diaSymbol
                  (scanPass SymTagUDT diaSymbol
                     (Some (rc,
                        acquire (handleCount diaDataSource diaSession diaSymbol) st))))))"

fun scanFiles :: "PdbFile list \<Rightarrow> PdbScanner \<Rightarrow> (DDR_RC \<times> PdbFile list \<times> PdbScanner) option" where
  "scanFiles [] st = Some (DDR_RC_OK, [], st)"
| "scanFiles (file # rest) st =
     (case scanFile file st of
        None \<Rightarrow> None
      | Some (rc, st1) \<Rightarrow>
          if rc \<noteq> DDR_RC_OK then Some (rc, [file], st1)
          else map_option (\<lambda>(rc2, reached, st2). (rc2, file # reached, st2))
                 (scanFiles rest st1))"

text \<open>
  Modelled from the spec: \<open>loadBlacklist\<close> belongs to the scanner's base class, which is
  not in the source file. The scan takes what it returns for the configured path: a
  return code and the set of blacklisted names (\<section>6). \<open>coInitialize_ok\<close> is the result of
  \<^verbatim>\<open>CoInitialize\<close>, and \<open>depth\<close> bounds the recursion of the renamer.
\<close>

definition beforeFiles ::
  "bool \<Rightarrow> (string \<Rightarrow> DDR_RC \<times> string set) \<Rightarrow> string \<Rightarrow> PdbScanner \<Rightarrow> DDR_RC \<times> PdbScanner" where
  "beforeFiles coInitialize_ok loadBlacklist blacklistPath st =
     (if \<not> coInitialize_ok then (DDR_RC_ERROR, initBaseTypeList st)
      else if blacklistPath \<noteq> []
      then (fst (loadBlacklist blacklistPath),
            (initBaseTypeList st)\<lparr>blacklistedTypes := snd (loadBlacklist blacklistPath)\<rparr>)
      else (DDR_RC_OK, initBaseTypeList st))"

definition afterFiles :: "nat \<Rightarrow> DDR_RC \<times> PdbScanner \<Rightarrow> (DDR_RC \<times> PdbScanner) option" where
  "afterFiles depth r =
     (case r of
        (rc, st) \<Rightarrow>
          if rc = DDR_RC_OK then
            (case updatePostponedFieldNames st of
               (rc1, st1) \<Rightarrow>
                 if rc1 = DDR_RC_OK
                 then map_option (Pair rc1) (renameAnonymousTypes depth st1)
                 else Some (rc1, st1))
          else Some (rc, st))"

definition startScan ::
  "bool \<Rightarrow> (string \<Rightarrow> DDR_RC \<times> string set) \<Rightarrow> nat \<Rightarrow> PdbFile list \<Rightarrow> string \<Rightarrow> PdbScanner
     \<Rightarrow> (DDR_RC \<times> PdbScanner) option" where
  "startScan coInitialize_ok loadBlacklist depth debugFiles blacklistPath st =
     (case beforeFiles coInitialize_ok loadBlacklist blacklistPath st of
        (rc, st1) \<Rightarrow>
          if rc = DDR_RC_OK then
            (case scanFiles debugFiles st1 of
               None \<Rightarrow> None
             | Some (rc2, reached, st2) \<Rightarrow> afterFiles depth (rc2, st2))
          else afterFiles depth (rc, st1))"

text \<open>The scanner before a scan: nothing is registered and nothing is allocated.\<close>

definition emptyScanner :: PdbScanner where
  "emptyScanner = \<lparr>typeMap = Map.empty, ir_types = [], postponedFields = [],
     blacklistedTypes = {}, typeStore = (\<lambda>a. newTypeNode Type 0), nextType = 0,
     fieldStore = (\<lambda>a. newFieldNode), nextField = 0, handlesHeld = 0\<rparr>"

subsection \<open>The scanner at the start of a scan\<close>

text \<open>\<open>baseScanner\<close> is the scanner after \<open>initBaseTypeList\<close>, which \<open>startScan\<close> calls
  first. \<open>lastIndexOf\<close> serves to state which node a name of \<open>baseTypeArray\<close> is
  registered to: the array holds some names more than once, and the last entry wins.\<close>

fun lastIndexOf :: "'a list \<Rightarrow> 'a \<Rightarrow> nat option" where
  "lastIndexOf [] x = None"
| "lastIndexOf (y # ys) x =
     (case lastIndexOf ys x of
        Some i \<Rightarrow> Some (i + 1)
      | None \<Rightarrow> if x = y then Some 0 else None)"

definition baseScanner :: PdbScanner where
  "baseScanner = initBaseTypeList emptyScanner"





subsection \<open>Symbols for the worked examples\<close>

text \<open>A symbol all of whose accessors fail, and symbols that answer the accessors the
  scanner calls on a class, a data member and a type.\<close>

definition noProps :: DiaProps where
  "noProps = \<lparr>get_symTag = None, get_name = None, get_length = None, get_baseType = None,
     get_udtKind = None, get_count = None, get_reference = None, get_constType = None,
     get_volatileType = None, get_unalignedType = None, get_locationType = None,
     get_offset = None, get_bitPosition = None\<rparr>"

definition namedSymbol :: "string \<Rightarrow> IDiaSymbol" where
  "namedSymbol nm = IDiaSymbol (noProps\<lparr>get_name := Some nm\<rparr>) None None"

text \<open>A class of the given name and size with the given children; a base type of the given
  code and width; a data member of the given name, offset and type; a typedef of the given
  type, whose name may fail to be read; the global scope with the given children; a debug
  file that opens and has that global scope.\<close>

definition classSymbol :: "string \<Rightarrow> nat \<Rightarrow> IDiaSymbol list \<Rightarrow> IDiaSymbol" where
  "classSymbol nm sz cs =
     IDiaSymbol (noProps\<lparr>get_symTag := Some SymTagUDT, get_name := Some nm, get_length := Some sz,
       get_udtKind := Some 0, get_constType := Some False, get_volatileType := Some False,
       get_unalignedType := Some False\<rparr>) None (Some cs)"

definition baseTypeSymbol :: "nat \<Rightarrow> nat \<Rightarrow> IDiaSymbol" where
  "baseTypeSymbol code len =
     IDiaSymbol (noProps\<lparr>get_symTag := Some SymTagBaseType, get_baseType := Some code,
       get_length := Some len, get_constType := Some False, get_volatileType := Some False,
       get_unalignedType := Some False\<rparr>) None None"

definition dataSymbol :: "string \<Rightarrow> int \<Rightarrow> IDiaSymbol \<Rightarrow> IDiaSymbol" where
  "dataSymbol nm off ty =
     IDiaSymbol (noProps\<lparr>get_symTag := Some SymTagData, get_name := Some nm,
       get_locationType := Some LocIsThisRel, get_offset := Some off\<rparr>) (Some ty) None"

definition typedefSymbol :: "string option \<Rightarrow> IDiaSymbol \<Rightarrow> IDiaSymbol" where
  "typedefSymbol nm ty =
     IDiaSymbol (noProps\<lparr>get_symTag := Some SymTagTypedef, get_name := nm\<rparr>) (Some ty) None"

definition globalScope :: "IDiaSymbol list \<Rightarrow> IDiaSymbol" where
  "globalScope cs = IDiaSymbol noProps None (Some cs)"

definition pdbFile :: "IDiaSymbol list \<Rightarrow> PdbFile" where
  "pdbFile cs = \<lparr>createInstance_ok = True, loadDataFromPdb_ok = True, openSession_ok = True,
     get_globalScope = Some (globalScope cs)\<rparr>"

text \<open>A class whose size cannot be read, and a base-class relation whose name may fail to be
  read.\<close>

definition sizelessClass :: "string \<Rightarrow> IDiaSymbol" where
  "sizelessClass nm =
     IDiaSymbol (noProps\<lparr>get_symTag := Some SymTagUDT, get_name := Some nm\<rparr>) None (Some [])"

definition baseClassSymbol :: "string option \<Rightarrow> IDiaSymbol" where
  "baseClassSymbol nm =
     IDiaSymbol (noProps\<lparr>get_symTag := Some SymTagBaseClass, get_name := nm\<rparr>) None None"


text \<open>A file that declares two anonymous classes at the top level and one inside a
  class \<open>Foo\<close>.\<close>

definition anonymousClasses :: "IDiaSymbol list" where
  "anonymousClasses =
     [classSymbol ''<unnamed-type-a>'' 4 [],
      classSymbol ''Foo'' 8 [classSymbol ''<unnamed-type-x>'' 4 []],
      classSymbol ''<unnamed-type-b>'' 4 []]"






subsection \<open>Children of a class\<close>


subsection \<open>The order of the renamer\<close>

text \<open>A node is anonymous when its name matches the test of \<open>renameAnonymousType\<close>, and an
  anonymous root when it has no owner and no separator in its name besides. \<open>visitOrders\<close>
  is the sequence of the nodes that the renamer visits from a list of nodes: each node
  before the nodes of its child list, with the bound of the renamer on the depth.
  \<open>firstRoots\<close> selects from a sequence the anonymous roots at their first occurrence.\<close>

definition isAnonymous :: "PdbScanner \<Rightarrow> nat \<Rightarrow> bool" where
  "isAnonymous st t =
     (str_find (t_name (typeStore st t)) ''<unnamed-type-'' 0 \<noteq> None
      \<or> t_name (typeStore st t) = ''<unnamed-tag>'')"

definition anonymousRoot :: "PdbScanner \<Rightarrow> nat \<Rightarrow> bool" where
  "anonymousRoot st t =
     (isAnonymous st t \<and> getNamespace st t = None
      \<and> str_find (t_name (typeStore st t)) ''::'' 0 = None)"

fun visitOrder :: "nat \<Rightarrow> PdbScanner \<Rightarrow> nat \<Rightarrow> nat list option"
and visitOrders :: "nat \<Rightarrow> PdbScanner \<Rightarrow> nat list \<Rightarrow> nat list option"
where
  "visitOrder 0 st t = None"
| "visitOrder (Suc depth) st t =
     (case getSubUDTS st t of
        None \<Rightarrow> Some [t]
      | Some subUDTs \<Rightarrow> map_option (Cons t) (visitOrders depth st subUDTs))"
| "visitOrders depth st [] = Some []"
| "visitOrders depth st (t # rest) =
     (case visitOrder depth st t of
        None \<Rightarrow> None
      | Some v \<Rightarrow> map_option (append v) (visitOrders depth st rest))"

fun firstRoots :: "PdbScanner \<Rightarrow> nat list \<Rightarrow> nat list \<Rightarrow> nat list" where
  "firstRoots st seen [] = []"
| "firstRoots st seen (t # ts) =
     (if anonymousRoot st t \<and> t \<notin> set seen then t # firstRoots st (t # seen) ts
      else firstRoots st seen ts)"

subsection \<open>Allocated addresses\<close>


definition addressesAllocated :: "PdbScanner \<Rightarrow> bool" where
  "addressesAllocated st =
     ((\<forall>t \<in> ran (typeMap st). t < nextType st)
      \<and> (\<forall>t \<in> set (ir_types st). t < nextType st)
      \<and> (\<forall>a. \<forall>t \<in> set (t_subUDTs (typeStore st a)). t < nextType st))"

definition unregistered :: "PdbScanner \<Rightarrow> (TypeRef \<times> string) list \<Rightarrow> (TypeRef \<times> string) list" where
  "unregistered st ps = filter (\<lambda>p. typeMap st (snd p) = None) ps"

subsection \<open>Declarations under two spellings of a name\<close>

text \<open>Two symbols answer every accessor alike except \<^verbatim>\<open>get_name\<close>: the same tag, size, kind
  and flags, the same type and the same children.\<close>

definition sameButName :: "IDiaSymbol \<Rightarrow> IDiaSymbol \<Rightarrow> bool" where
  "sameButName a b =
     ((props a)\<lparr>get_name := None\<rparr> = (props b)\<lparr>get_name := None\<rparr>
      \<and> get_type a = get_type b \<and> children a = children b)"




subsection \<open>A result that extends the registry\<close>

text \<open>A result, when there is one, holds a registry that extends the registry of the state
  the function was called in; the dispatcher at one symbol, and all functions of the block
  at one symbol.\<close>

definition grows :: "(DDR_RC \<times> PdbScanner) option \<Rightarrow> PdbScanner \<Rightarrow> bool" where
  "grows r st = (\<forall>rst. r = Some rst \<longrightarrow> typeMap st \<subseteq>\<^sub>m typeMap (snd rst))"

definition addSymbol_grows :: "IDiaSymbol \<Rightarrow> bool" where
  "addSymbol_grows c = (\<forall>outer st. grows (addSymbol c outer st) st)"

definition all_grow :: "IDiaSymbol \<Rightarrow> bool" where
  "all_grow symbol =
     (addSymbol_grows symbol
      \<and> (\<forall>outer st. grows (createClassUDT symbol outer st) st)
      \<and> (\<forall>symTag outer st. grows (addChildrenSymbols symbol symTag outer st) st)
      \<and> (\<forall>outer st. grows (addFieldMember symbol outer st) st)
      \<and> (\<forall>outer st. grows (createTypedef symbol outer st) st)
      \<and> (\<forall>type modifiers outer st. grows (setType symbol type modifiers outer st) st)
      \<and> (\<forall>type outer st. grows (setTypeUDT symbol type outer st) st))"

section \<open>Properties\<close>

subsection \<open>The registry only grows\<close>

lemma typeMap_prims [simp]:
  "typeMap (updType a f st) = typeMap st"
  "typeMap (updField b g st) = typeMap st"
  "typeMap (snd (allocType c sz st)) = typeMap st"
  "typeMap (snd (allocField st)) = typeMap st"
  "typeMap (writeRef r v st) = typeMap st"
  "typeMap (updModifiers m h st) = typeMap st"
  "typeMap (addArrayDimension m n st) = typeMap st"
  "typeMap (pushSubUDT outer t st) = typeMap st"
  "typeMap (adopt outer t st) = typeMap st"
  "typeMap (postpone r nm st) = typeMap st"
  by (simp_all add: updType_def updField_def allocType_def allocField_def writeRef_def
        updModifiers_def addArrayDimension_def pushSubUDT_def adopt_def postpone_def
        split: TypeRef.split ModifiersRef.split option.split)

lemma typeMap_setMemberOffset [simp]: "typeMap (snd (setMemberOffset symbol f st)) = typeMap st"
  by (simp add: setMemberOffset_def Let_def split: option.split)

lemma typeMap_setTypeModifier [simp]: "typeMap (snd (setTypeModifier symbol m st)) = typeMap st"
  by (simp add: setTypeModifier_def Let_def split: option.split)

lemma typeMap_setPointerType [simp]: "typeMap (snd (setPointerType symbol m st)) = typeMap st"
  by (simp add: setPointerType_def split: option.split)

lemma typeMap_setBaseType:
  "setBaseType symbol r st = Some rst \<Longrightarrow> typeMap (snd rst) = typeMap st"
  by (auto simp: setBaseType_def setBaseTypeUInt_def setBaseTypeInt_def setBaseTypeFloat_def
      split: option.splits prod.splits if_splits)

lemma typeMap_addType: "addType t b st = Some st' \<Longrightarrow> typeMap st \<subseteq>\<^sub>m typeMap st'"
  by (auto simp: addType_def Let_def map_le_def split: option.splits if_splits)

lemma typeMap_setSuperClassName:
  "setSuperClassName symbol u st = Some rst \<Longrightarrow> typeMap (snd rst) = typeMap st"
  by (auto simp: setSuperClassName_def split: option.splits prod.splits if_splits)

lemma typeMap_addEnumMembersLoop [simp]:
  "typeMap (snd (addEnumMembersLoop cs e st)) = typeMap st"
  by (induction cs arbitrary: st) (auto split: prod.splits)

lemma typeMap_addEnumMembers [simp]: "typeMap (snd (addEnumMembers symbol e st)) = typeMap st"
  by (simp add: addEnumMembers_def split: option.split)

lemma typeMap_findOrCreateNamespace:
  "findOrCreateNamespace n p outer st = Some (ns, st') \<Longrightarrow> typeMap st \<subseteq>\<^sub>m typeMap st'"
  by (auto simp: findOrCreateNamespace_def Let_def allocType_def
      split: option.splits prod.splits dest!: typeMap_addType)

lemma typeMap_linkNamespace [simp]: "typeMap (linkNamespace ns outer st) = typeMap st"
  by (simp add: linkNamespace_def Let_def split: option.split)

lemma typeMap_getNamespaceLoop:
  "getNamespaceLoop nm p outer st = Some (p', outer', st') \<Longrightarrow> typeMap st \<subseteq>\<^sub>m typeMap st'"
proof (induction nm p outer st rule: getNamespaceLoop.induct)
  case (1 nm previousPos outerNamespace st)
  show ?case
  proof (cases "str_find nm ''::'' previousPos")
    case None
    with "1.prems" show ?thesis by (simp add: getNamespaceLoop.simps)
  next
    case (Some pos)
    with "1.prems" obtain ns st1 where
      f: "findOrCreateNamespace (substr nm previousPos (pos - previousPos)) previousPos
            outerNamespace st = Some (ns, st1)"
      and r: "getNamespaceLoop nm (pos + 2) (Some ns) (linkNamespace ns outerNamespace st1)
            = Some (p', outer', st')"
      by (auto simp: getNamespaceLoop.simps [of nm previousPos] split: option.splits)
    from "1.IH" [OF Some f refl r]
    have "typeMap st1 \<subseteq>\<^sub>m typeMap st'" by simp
    with typeMap_findOrCreateNamespace [OF f] show ?thesis by (rule map_le_trans)
  qed
qed

lemma typeMap_getNamespaceFromName:
  "getNamespaceFromName nm outer st = Some (nm', outer', st') \<Longrightarrow> typeMap st \<subseteq>\<^sub>m typeMap st'"
  by (auto simp: getNamespaceFromName_def split: if_splits option.splits
      dest: typeMap_getNamespaceLoop)

lemma typeMap_registerEnumUDT:
  "registerEnumUDT e outer r = Some rst \<Longrightarrow> typeMap (snd r) \<subseteq>\<^sub>m typeMap (snd rst)"
  by (auto simp: registerEnumUDT_def split: prod.splits if_splits dest!: typeMap_addType)

lemma typeMap_newEnumUDT:
  assumes "newEnumUDT symbol nm outer st = Some rst"
  shows "typeMap st \<subseteq>\<^sub>m typeMap (snd rst)"
proof -
  from assms obtain nm1 outer1 st1 where
    g: "getNamespaceFromName nm outer st = Some (nm1, outer1, st1)"
    and r: "registerEnumUDT (nextType st1) outer1
              (addEnumMembers symbol (nextType st1)
                 (updType (nextType st1) (\<lambda>x. x\<lparr>t_name := nm1\<rparr>) (snd (allocType EnumUDT 0 st1))))
            = Some rst"
    by (auto simp: newEnumUDT_def Let_def allocType_def split: option.splits prod.splits)
  from typeMap_registerEnumUDT [OF r] have "typeMap st1 \<subseteq>\<^sub>m typeMap (snd rst)" by simp
  with typeMap_getNamespaceFromName [OF g] show ?thesis by (rule map_le_trans)
qed

lemma typeMap_mergeEnumUDT:
  "mergeEnumUDT symbol fullName outer st = Some rst \<Longrightarrow> typeMap (snd rst) = typeMap st"
  by (auto simp: mergeEnumUDT_def Let_def split: option.splits if_splits)

lemma typeMap_createEnumUDT:
  "createEnumUDT symbol outer st = Some rst \<Longrightarrow> typeMap st \<subseteq>\<^sub>m typeMap (snd rst)"
  by (auto simp: createEnumUDT_def split: UDTStart.splits if_splits
      dest: typeMap_newEnumUDT typeMap_mergeEnumUDT)


lemma growsI: "(\<And>rst. r = Some rst \<Longrightarrow> typeMap st \<subseteq>\<^sub>m typeMap (snd rst)) \<Longrightarrow> grows r st"
  by (simp add: grows_def)

lemma growsD: "grows r st \<Longrightarrow> r = Some rst \<Longrightarrow> typeMap st \<subseteq>\<^sub>m typeMap (snd rst)"
  by (simp add: grows_def)

lemma grows_None [simp]: "grows None st"
  by (simp add: grows_def)

lemma grows_same: "typeMap st' = typeMap st \<Longrightarrow> grows (Some (rc, st')) st"
  by (simp add: grows_def)

lemma grows_trans: "typeMap st \<subseteq>\<^sub>m typeMap st1 \<Longrightarrow> grows r st1 \<Longrightarrow> grows r st"
  unfolding grows_def by (blast intro: map_le_trans)

lemma typeMap_registerClassUDT:
  "registerClassUDT c r = Some rst \<Longrightarrow> typeMap (snd r) \<subseteq>\<^sub>m typeMap (snd rst)"
  by (auto simp: registerClassUDT_def split: prod.splits if_splits dest!: typeMap_addType)

lemma typeMap_newClassUDT:
  "newClassUDT nm sz outer st = Some (c, st') \<Longrightarrow> typeMap st \<subseteq>\<^sub>m typeMap st'"
  by (auto simp: newClassUDT_def Let_def allocType_def split: option.splits prod.splits
      dest!: typeMap_getNamespaceFromName)

lemma typeMap_previousClassUDT:
  "previousClassUDT fullName outer st = Some (c, st') \<Longrightarrow> typeMap st' = typeMap st"
  by (auto simp: previousClassUDT_def split: option.splits)

lemma typeMap_beginField [simp]: "typeMap (snd (snd (beginField symbol st))) = typeMap st"
  by (simp add: beginField_def Let_def allocField_def split: prod.split)
     (metis snd_conv typeMap_prims(2) typeMap_setMemberOffset PdbScanner.select_convs
        PdbScanner.surjective PdbScanner.update_convs)


lemma typeMap_pushField:
  "pushField udt f r = Some rst \<Longrightarrow> typeMap (snd rst) = typeMap (snd r)"
  by (auto simp: pushField_def split: prod.splits if_splits option.splits)

lemma typeMap_newTypedefUDT [simp]: "typeMap (snd (newTypedefUDT nm outer st)) = typeMap st"
  by (simp add: newTypedefUDT_def Let_def allocType_def)

lemma typeMap_finishTypedef:
  "finishTypedef t outer r = Some rst \<Longrightarrow> typeMap (snd r) \<subseteq>\<^sub>m typeMap (snd rst)"
  by (auto simp: finishTypedef_def split: prod.splits if_splits option.splits
      dest!: typeMap_addType)

lemma typeMap_bindLastSubUDT:
  "bindLastSubUDT r outer x = Some rst \<Longrightarrow> typeMap (snd rst) = typeMap (snd x)"
  by (auto simp: bindLastSubUDT_def split: prod.splits if_splits)

text \<open>The step lemmas of the induction on the symbol tree.\<close>

lemma addChildrenLoop_grows:
  assumes "\<forall>c \<in> set cs. addSymbol_grows c"
    and "addChildrenLoop outer cs i hadF chkF hadS inner st = Some (rc, inner', st')"
  shows "typeMap st \<subseteq>\<^sub>m typeMap st'"
  using assms
proof (induction cs arbitrary: outer i hadF chkF hadS inner st)
  case Nil
  then show ?case by (simp add: addChildrenLoop.simps)
next
  case (Cons c cs)
  obtain rc0 symTag udtName where t: "childTagAndName c = (rc0, symTag, udtName)"
    by (cases "childTagAndName c") auto
  have ih: "addChildrenLoop ou cs j a b hs inn s = Some (rc, inner', st')
      \<Longrightarrow> typeMap s \<subseteq>\<^sub>m typeMap st'" for ou j a b hs inn s
    using Cons.IH Cons.prems(1) by simp
  have g: "addSymbol c ou st = Some rst \<Longrightarrow> typeMap st \<subseteq>\<^sub>m typeMap (snd rst)" for ou rst
    using Cons.prems(1) by - (erule growsD [rotated], simp add: addSymbol_grows_def)
  show ?case
    using Cons.prems(2) t
    apply (simp add: addChildrenLoop.simps split: if_splits option.splits prod.splits)
       apply (auto dest!: ih g elim: map_le_trans)
    done
qed


lemma addInnerTypes_grows:
  assumes "\<forall>c \<in> set cs. addSymbol_grows c"
    and "addInnerTypes cs is st = Some rst"
  shows "typeMap st \<subseteq>\<^sub>m typeMap (snd rst)"
  using assms(2)
proof (induction "is" arbitrary: st)
  case Nil
  then show ?case by (auto simp: addInnerTypes.simps)
next
  case (Cons i "is")
  from Cons.prems have i: "i < length cs"
    by (simp add: addInnerTypes.simps split: if_splits)
  then have gi: "addSymbol_grows (cs ! i)" using assms(1) by simp
  have g: "addSymbol (cs ! i) None st = Some r \<Longrightarrow> typeMap st \<subseteq>\<^sub>m typeMap (snd r)" for r
    by (erule growsD [rotated]) (use gi in \<open>simp add: addSymbol_grows_def\<close>)
  show ?case
    using Cons.prems i
    by (auto simp: addInnerTypes.simps split: option.splits if_splits
        dest!: g Cons.IH elim: map_le_trans)
qed

lemma addChildrenSymbols_grows:
  assumes "\<And>cs. findChildren symTag symbol = Some cs \<Longrightarrow> \<forall>c \<in> set cs. addSymbol_grows c"
  shows "grows (addChildrenSymbols symbol symTag outer st) st"
proof (rule growsI)
  fix rst
  assume a: "addChildrenSymbols symbol symTag outer st = Some rst"
  show "typeMap st \<subseteq>\<^sub>m typeMap (snd rst)"
  proof (cases "findChildren symTag symbol")
    case None
    with a show ?thesis by (auto simp: addChildrenSymbols.simps)
  next
    case (Some cs)
    note good = assms [OF Some]
    from a Some obtain rc inner st1 where
      l: "addChildrenLoop outer cs 0 False False
            (case outer of None \<Rightarrow> False | Some ns \<Rightarrow> t_subUDTs (typeStore st ns) \<noteq> [])
            [] st = Some (rc, inner, st1)"
      and r: "(if rc = DDR_RC_OK then addInnerTypes cs inner st1 else Some (rc, st1)) = Some rst"
      by (auto simp: addChildrenSymbols.simps split: option.splits)
    from addChildrenLoop_grows [OF good l] have 1: "typeMap st \<subseteq>\<^sub>m typeMap st1" .
    show ?thesis
    proof (cases "rc = DDR_RC_OK")
      case True
      with r have "addInnerTypes cs inner st1 = Some rst" by simp
      from addInnerTypes_grows [OF good this] 1 show ?thesis by (blast intro: map_le_trans)
    next
      case False
      with r 1 show ?thesis by auto
    qed
  qed
qed

lemma createClassUDT_grows:
  assumes "\<And>symTag outer st. grows (addChildrenSymbols symbol symTag outer st) st"
  shows "grows (createClassUDT symbol outer st) st"
proof (rule growsI)
  fix rst
  assume a: "createClassUDT symbol outer st = Some rst"
  have acs: "addChildrenSymbols symbol t ou s = Some r \<Longrightarrow> typeMap s \<subseteq>\<^sub>m typeMap (snd r)"
    for t ou s r by (erule growsD [rotated]) (rule assms)
  show "typeMap st \<subseteq>\<^sub>m typeMap (snd rst)"
    using a
    by (auto simp: createClassUDT.simps split: UDTStart.splits if_splits option.splits
        dest!: acs typeMap_newClassUDT typeMap_registerClassUDT typeMap_previousClassUDT)
       (meson map_le_trans)+
qed

lemma setTypeUDT_grows:
  assumes "\<And>outer st. grows (createClassUDT typeSymbol outer st) st"
  shows "grows (setTypeUDT typeSymbol type outerUDT st) st"
proof (rule growsI)
  fix rst
  assume a: "setTypeUDT typeSymbol type outerUDT st = Some rst"
  have ccu: "createClassUDT typeSymbol ou s = Some r \<Longrightarrow> typeMap s \<subseteq>\<^sub>m typeMap (snd r)"
    for ou s r by (erule growsD [rotated]) (rule assms)
  show "typeMap st \<subseteq>\<^sub>m typeMap (snd rst)"
    using a
    by (auto simp: setTypeUDT.simps split: option.splits prod.splits if_splits
        dest!: ccu typeMap_bindLastSubUDT)
qed

lemma setType_grows:
  assumes "\<And>ts type modifiers outerUDT st. get_type symbol = Some ts
             \<Longrightarrow> grows (setType ts type modifiers outerUDT st) st"
    and "\<And>ts type outerUDT st. get_type symbol = Some ts
             \<Longrightarrow> grows (setTypeUDT ts type outerUDT st) st"
  shows "grows (setType symbol type modifiers outerUDT st) st"
proof (rule growsI)
  fix rst
  assume a: "setType symbol type modifiers outerUDT st = Some rst"
  then obtain ts where ts: "get_type symbol = Some ts"
    by (auto simp: setType.simps [of symbol] split: option.splits)
  have st: "setType ts ty m ou s = Some r \<Longrightarrow> typeMap s \<subseteq>\<^sub>m typeMap (snd r)" for ty m ou s r
    by (erule growsD [rotated]) (rule assms(1) [OF ts])
  have stu: "setTypeUDT ts ty ou s = Some r \<Longrightarrow> typeMap s \<subseteq>\<^sub>m typeMap (snd r)" for ty ou s r
    by (erule growsD [rotated]) (rule assms(2) [OF ts])
  obtain rc1 st1 where sm: "setTypeModifier ts modifiers st = (rc1, st1)"
    by (cases "setTypeModifier ts modifiers st") auto
  have "typeMap (snd (setTypeModifier ts modifiers st)) = typeMap st" by simp
  with sm have m: "typeMap st1 = typeMap st" by simp
  obtain rc2 st2 where sp: "setPointerType symbol modifiers st1 = (rc2, st2)"
    by (cases "setPointerType symbol modifiers st1") auto
  have "typeMap (snd (setPointerType symbol modifiers st1)) = typeMap st1" by simp
  with sp m have p: "typeMap st2 = typeMap st" by simp
  have ad: "typeMap (addArrayDimension modifiers n st1) = typeMap st" for n using m by simp
  have wr: "typeMap (writeRef type v st1) = typeMap st" for v using m by simp
  show "typeMap st \<subseteq>\<^sub>m typeMap (snd rst)"
  proof (cases "rc1 = DDR_RC_OK")
    case False
    with a ts sm m show ?thesis by (auto simp: setType.simps [of symbol])
  next
    case True
    show ?thesis
    proof (cases "get_symTag (props ts)")
      case None
      with a ts sm m True show ?thesis by (auto simp: setType.simps [of symbol])
    next
      case (Some symTag)
      note u = a ts sm True Some sp
      note sts = setType.simps [of symbol]
      consider (udt) "symTag = SymTagEnum \<or> symTag = SymTagUDT"
        | (arr) "symTag = SymTagArrayType"
        | (ptr) "symTag = SymTagPointerType"
        | (base) "symTag = SymTagBaseType"
        | (fn) "symTag = SymTagFunctionType"
        | (other) "symTag \<noteq> SymTagEnum" "symTag \<noteq> SymTagUDT" "symTag \<noteq> SymTagArrayType"
            "symTag \<noteq> SymTagPointerType" "symTag \<noteq> SymTagBaseType"
            "symTag \<noteq> SymTagFunctionType"
        by blast
      then show ?thesis
      proof cases
        case udt
        with u have "setTypeUDT ts type outerUDT st1 = Some rst" by (auto simp: sts)
        from stu [OF this] m show ?thesis by simp
      next
        case arr
        show ?thesis
        proof (cases "get_count (props ts)")
          case None
          with u arr m show ?thesis by (auto simp: sts)
        next
          case (Some n)
          with u arr have "setType ts type modifiers outerUDT (addArrayDimension modifiers n st1)
              = Some rst" by (simp add: sts)
          from st [OF this] ad show ?thesis by simp
        qed
      next
        case ptr
        show ?thesis
        proof (cases "rc2 = DDR_RC_OK")
          case True
          with u ptr sp have "setType ts type modifiers outerUDT st2 = Some rst" by (simp add: sts)
          from st [OF this] p show ?thesis by simp
        next
          case False
          with u ptr sp p show ?thesis by (auto simp: sts)
        qed
      next
        case base
        with u have "setBaseType ts type st1 = Some rst" by (simp add: sts)
        from typeMap_setBaseType [OF this] m show ?thesis by simp
      next
        case fn
        with u wr show ?thesis by (auto simp: sts)
      next
        case other
        with u m show ?thesis by (auto simp: sts)
      qed
    qed
  qed
qed


lemma addFieldMember_grows:
  assumes "\<And>type modifiers outerUDT st. grows (setType symbol type modifiers outerUDT st) st"
  shows "grows (addFieldMember symbol udt st) st"
proof (rule growsI)
  fix rst
  assume a: "addFieldMember symbol udt st = Some rst"
  obtain rc f st1 where b: "beginField symbol st = (rc, f, st1)"
    by (cases "beginField symbol st") auto
  have "typeMap (snd (snd (beginField symbol st))) = typeMap st" by simp
  with b have m: "typeMap st1 = typeMap st" by simp
  have st: "setType symbol ty mo ou s = Some r \<Longrightarrow> typeMap s \<subseteq>\<^sub>m typeMap (snd r)"
    for ty mo ou s r by (erule growsD [rotated]) (rule assms)
  show "typeMap st \<subseteq>\<^sub>m typeMap (snd rst)"
    using a b m
    by (auto simp: addFieldMember.simps split: if_splits option.splits
        dest!: st typeMap_pushField)
qed

lemma createTypedef_grows:
  assumes "\<And>type modifiers outerUDT st. grows (setType symbol type modifiers outerUDT st) st"
  shows "grows (createTypedef symbol outer st) st"
proof (rule growsI)
  fix rst
  assume a: "createTypedef symbol outer st = Some rst"
  have st: "setType symbol ty mo ou s = Some r \<Longrightarrow> typeMap s \<subseteq>\<^sub>m typeMap (snd r)"
    for ty mo ou s r by (erule growsD [rotated]) (rule assms)
  have n: "newTypedefUDT nm outer st = (t, st1) \<Longrightarrow> typeMap st1 = typeMap st" for nm t st1
    using typeMap_newTypedefUDT [of nm outer st] by simp
  show "typeMap st \<subseteq>\<^sub>m typeMap (snd rst)"
    using a
    by (auto simp: createTypedef.simps split: option.splits prod.splits
        dest!: st n typeMap_finishTypedef)
       (meson map_le_trans)+
qed

lemma addSymbol_grows_step:
  assumes "\<And>outer st. grows (createClassUDT symbol outer st) st"
    and "\<And>outer st. grows (addFieldMember symbol outer st) st"
    and "\<And>outer st. grows (createTypedef symbol outer st) st"
  shows "addSymbol_grows symbol"
  unfolding addSymbol_grows_def
proof (intro allI growsI)
  fix outer st rst
  assume a: "addSymbol symbol outer st = Some rst"
  have 1: "createClassUDT symbol ou s = Some r \<Longrightarrow> typeMap s \<subseteq>\<^sub>m typeMap (snd r)" for ou s r
    by (erule growsD [rotated]) (rule assms)
  have 2: "addFieldMember symbol ou s = Some r \<Longrightarrow> typeMap s \<subseteq>\<^sub>m typeMap (snd r)" for ou s r
    by (erule growsD [rotated]) (rule assms)
  have 3: "createTypedef symbol ou s = Some r \<Longrightarrow> typeMap s \<subseteq>\<^sub>m typeMap (snd r)" for ou s r
    by (erule growsD [rotated]) (rule assms)
  show "typeMap st \<subseteq>\<^sub>m typeMap (snd rst)"
    using a
    by (auto simp: addSymbol.simps split: option.splits if_splits
        dest!: 1 2 3 typeMap_createEnumUDT typeMap_setSuperClassName)
qed

lemma size_child_findChildren:
  assumes "findChildren symTag symbol = Some cs" and "c \<in> set cs"
  shows "size c < size symbol"
proof -
  from assms(2) obtain i where "i < length cs" and "cs ! i = c"
    by (auto simp: in_set_conv_nth)
  then have "size c < size_list size cs" using size_nth_child by blast
  with size_findChildren [OF assms(1)] show ?thesis by simp
qed

lemma all_grow: "all_grow symbol"
proof (induction symbol rule: measure_induct_rule [of size])
  case (less symbol)
  have acs: "grows (addChildrenSymbols symbol symTag outer st) st" for symTag outer st
  proof (rule addChildrenSymbols_grows)
    fix cs
    assume "findChildren symTag symbol = Some cs"
    then show "\<forall>c \<in> set cs. addSymbol_grows c"
      using less.IH size_child_findChildren by (auto simp: all_grow_def)
  qed
  have ccu: "grows (createClassUDT symbol outer st) st" for outer st
    by (rule createClassUDT_grows) (rule acs)
  have stu: "grows (setTypeUDT symbol type outer st) st" for type outer st
    by (rule setTypeUDT_grows) (rule ccu)
  have st: "grows (setType symbol type modifiers outer st) st" for type modifiers outer st
  proof (rule setType_grows)
    fix ts ty mo ou s
    assume "get_type symbol = Some ts"
    then have "all_grow ts" using less.IH size_get_type by blast
    then show "grows (setType ts ty mo ou s) s" by (simp add: all_grow_def)
  next
    fix ts ty ou s
    assume "get_type symbol = Some ts"
    then have "all_grow ts" using less.IH size_get_type by blast
    then show "grows (setTypeUDT ts ty ou s) s" by (simp add: all_grow_def)
  qed
  have afm: "grows (addFieldMember symbol outer st) st" for outer st
    by (rule addFieldMember_grows) (rule st)
  have ct: "grows (createTypedef symbol outer st) st" for outer st
    by (rule createTypedef_grows) (rule st)
  have "addSymbol_grows symbol"
    by (rule addSymbol_grows_step) (rule ccu afm ct)+
  with acs ccu stu st afm ct show ?case by (simp add: all_grow_def)
qed


subsection \<open>The base types\<close>

lemma initBaseTypes_nextType: "nextType (initBaseTypes names st) = nextType st + length names"
  by (induction names arbitrary: st) (simp_all add: allocType_def updType_def)

lemma initBaseTypes_typeMap:
  "typeMap (initBaseTypes names st) nm =
     (case lastIndexOf names nm of None \<Rightarrow> typeMap st nm | Some i \<Rightarrow> Some (nextType st + i))"
  by (induction names arbitrary: st)
     (auto simp: allocType_def updType_def split: option.splits)

lemma initBaseTypes_typeStore:
  "typeStore (initBaseTypes names st) a =
     (if nextType st \<le> a \<and> a < nextType st + length names
      then (newTypeNode Type 0)\<lparr>t_name := names ! (a - nextType st)\<rparr>
      else typeStore st a)"
proof (induction names arbitrary: st)
  case Nil
  show ?case by auto
next
  case (Cons nm names)
  show ?case
    by (auto simp: Cons.IH allocType_def updType_def nth_Cons')
qed

lemma initBaseTypes_ir_types:
  "ir_types (initBaseTypes names st) =
     ir_types st @ [nextType st ..< nextType st + length names]"
  by (induction names arbitrary: st)
     (simp_all add: allocType_def updType_def upt_rec)

lemma initBaseTypes_rest:
  "postponedFields (initBaseTypes names st) = postponedFields st"
  "blacklistedTypes (initBaseTypes names st) = blacklistedTypes st"
  "fieldStore (initBaseTypes names st) = fieldStore st"
  "nextField (initBaseTypes names st) = nextField st"
  "handlesHeld (initBaseTypes names st) = handlesHeld st"
  by (induction names arbitrary: st; simp add: allocType_def updType_def)+

lemma length_baseNames: "length (baseTypeArray @ [errorNoType]) = 35"
  by (simp add: baseTypeArray_def)

lemma baseScanner_simps:
  "nextType baseScanner = 35"
  "typeMap baseScanner nm = lastIndexOf (baseTypeArray @ [errorNoType]) nm"
  "typeStore baseScanner a =
     (if a < 35 then (newTypeNode Type 0)\<lparr>t_name := (baseTypeArray @ [errorNoType]) ! a\<rparr>
      else newTypeNode Type 0)"
  "ir_types baseScanner = [0..<35]"
  "postponedFields baseScanner = []"
  "blacklistedTypes baseScanner = {}"
  "nextField baseScanner = 0"
  "handlesHeld baseScanner = 0"
  "fieldStore baseScanner = (\<lambda>a. newFieldNode)"
  unfolding baseScanner_def initBaseTypeList_def
  by (simp_all only: initBaseTypes_nextType initBaseTypes_typeMap initBaseTypes_typeStore
        initBaseTypes_ir_types initBaseTypes_rest length_baseNames)
     (simp_all add: emptyScanner_def split: option.split)





lemma readRef_writeRef [simp]: "readRef (writeRef r v st) r = v"
  by (cases r) (simp_all add: readRef_def writeRef_def updField_def updType_def)








lemma addSymbol_registry:
  assumes "addSymbol symbol outer st = Some rst"
  shows "typeMap st \<subseteq>\<^sub>m typeMap (snd rst)"
proof -
  have "grows (addSymbol symbol outer st) st"
    using all_grow [of symbol] by (simp add: all_grow_def addSymbol_grows_def)
  then show ?thesis using assms by (rule growsD)
qed

lemma createClassUDT_registry:
  assumes "createClassUDT symbol outer st = Some rst"
  shows "typeMap st \<subseteq>\<^sub>m typeMap (snd rst)"
proof -
  have "grows (createClassUDT symbol outer st) st"
    using all_grow [of symbol] by (simp add: all_grow_def)
  then show ?thesis using assms by (rule growsD)
qed

lemma addChildrenSymbols_registry:
  assumes "addChildrenSymbols symbol symTag outer st = Some rst"
  shows "typeMap st \<subseteq>\<^sub>m typeMap (snd rst)"
proof -
  have "grows (addChildrenSymbols symbol symTag outer st) st"
    using all_grow [of symbol] by (simp add: all_grow_def)
  then show ?thesis using assms by (rule growsD)
qed

lemma scanPass_registry:
  assumes "scanPass symTag diaSymbol r = Some rst"
    and "\<forall>r0. r = Some r0 \<longrightarrow> typeMap st \<subseteq>\<^sub>m typeMap (snd r0)"
  shows "typeMap st \<subseteq>\<^sub>m typeMap (snd rst)"
proof (cases r)
  case None
  with assms(1) show ?thesis by (simp add: scanPass_def)
next
  case (Some x)
  obtain rc s where x: "x = (rc, s)" by (cases x) auto
  from assms(2) Some x have 1: "typeMap st \<subseteq>\<^sub>m typeMap s" by simp
  show ?thesis
  proof (cases "rc = DDR_RC_OK")
    case False
    with assms(1) Some x 1 show ?thesis by (auto simp: scanPass_def)
  next
    case True
    with assms(1) Some x obtain symbol where
      "addChildrenSymbols symbol symTag None s = Some rst"
      by (auto simp: scanPass_def split: option.splits)
    from addChildrenSymbols_registry [OF this] 1 show ?thesis by (blast intro: map_le_trans)
  qed
qed

lemma scanFile_registry:
  assumes "scanFile f st = Some rst"
  shows "typeMap st \<subseteq>\<^sub>m typeMap (snd rst)"
proof -
  obtain rc ds se sy where l: "loadDataFromPdb f = (rc, ds, se, sy)"
    by (cases "loadDataFromPdb f") auto
  let ?r0 = "Some (rc, acquire (handleCount ds se sy) st)"
  from assms l obtain r3 where
    r3: "scanPass SymTagTypedef sy (scanPass SymTagEnum sy (scanPass SymTagUDT sy ?r0)) = Some r3"
    and rst: "rst = (fst r3, release (handleCount ds se sy) (snd r3))"
    by (auto simp: scanFile_def)
  from r3 obtain r2 where r2: "scanPass SymTagEnum sy (scanPass SymTagUDT sy ?r0) = Some r2"
    by (cases "scanPass SymTagEnum sy (scanPass SymTagUDT sy ?r0)") (auto simp: scanPass_def)
  from r2 obtain r1 where r1: "scanPass SymTagUDT sy ?r0 = Some r1"
    by (cases "scanPass SymTagUDT sy ?r0") (auto simp: scanPass_def)
  have 1: "typeMap st \<subseteq>\<^sub>m typeMap (snd r1)"
    by (rule scanPass_registry [OF r1]) (auto simp: acquire_def)
  have 2: "typeMap st \<subseteq>\<^sub>m typeMap (snd r2)"
    using r2 unfolding r1 by (rule scanPass_registry) (use 1 in auto)
  have 3: "typeMap st \<subseteq>\<^sub>m typeMap (snd r3)"
    using r3 unfolding r2 by (rule scanPass_registry) (use 2 in auto)
  with rst show ?thesis by (simp add: release_def)
qed

lemma scanFiles_registry:
  "scanFiles fs st = Some (rc, reached, st') \<Longrightarrow> typeMap st \<subseteq>\<^sub>m typeMap st'"
proof (induction fs arbitrary: st rc reached st')
  case Nil
  then show ?case by simp
next
  case (Cons f fs)
  from Cons.prems obtain rc1 st1 where f: "scanFile f st = Some (rc1, st1)"
    by (auto split: option.splits)
  from scanFile_registry [OF f] have 1: "typeMap st \<subseteq>\<^sub>m typeMap st1" by simp
  show ?case
  proof (cases "rc1 = DDR_RC_OK")
    case False
    with Cons.prems f 1 show ?thesis by auto
  next
    case True
    with Cons.prems f obtain rc2 re2 where "scanFiles fs st1 = Some (rc2, re2, st')"
      by (auto split: option.splits)
    from Cons.IH [OF this] 1 show ?thesis by (blast intro: map_le_trans)
  qed
qed

subsection \<open>Evaluation\<close>

text \<open>The bounded recursions by the predecessor of the bound, and the equations by which a
  run of the scanner on a given symbol is computed.\<close>

lemma getFullName_upto_unfold:
  "getFullName_upto n store a =
     (if n = 0 then None
      else (case t_outerNamespace (store a) of
              None \<Rightarrow> Some (t_name (store a))
            | Some outer \<Rightarrow>
                map_option (\<lambda>q. q @ ''::'' @ t_name (store a))
                  (getFullName_upto (n - 1) store outer)))"
  by (cases n) (simp_all split: option.split)

lemma followBaseType_unfold:
  "followBaseType n st t =
     (if n = 0 then None
      else (case getBaseType st t of None \<Rightarrow> Some t | Some b \<Rightarrow> followBaseType (n - 1) st b))"
  by (cases n) (simp_all split: option.split)

lemma renameAnonymousType_unfold:
  "renameAnonymousType depth type cs =
     (if depth = 0 then None
      else (case getSubUDTS (snd (renameOne type cs)) type of
              None \<Rightarrow> Some (renameOne type cs)
            | Some subUDTs \<Rightarrow> renameSubUDTs (depth - 1) subUDTs (renameOne type cs)))"
  by (cases depth) (simp_all add: Let_def split: option.split)

lemmas eval_simps =
  baseScanner_simps baseTypeArray_def errorNoType_def allocType_def allocField_def updType_def
  updField_def Let_def newTypeNode_def newFieldNode_def noModifiers_def noProps_def
  classSymbol_def baseTypeSymbol_def dataSymbol_def typedefSymbol_def globalScope_def pdbFile_def
  findChildren_def getName_def getSize_def checkBlacklistedType_def str_find_def
  anonymous_namespace_hyphen_def anonymous_namespace_space_def
  str_erase_def substr_def substr_from_def getNamespaceFromName_def getNamespaceLoop.simps
  findOrCreateNamespace_def linkNamespace_def getType_def addType_def getFullName_def
  getSubUDTS_def getNamespace_def getBaseType_def eraseRemove_def getFullName_upto_unfold
  followBaseType_unfold startUDT_def qualifiedName_def firstSighting_def pushSubUDT_def adopt_def
  addEnumMembers_def registerEnumUDT_def newEnumUDT_def mergeEnumUDT_def createEnumUDT_def
  newClassUDT_def registerClassUDT_def previousClassUDT_def childTagAndName_def checkFields_def
  beginField_def pushField_def typedefBaseName_def startTypedef_def newTypedefUDT_def
  finishTypedef_def bindLastSubUDT_def postpone_def
  addSymbol.simps createClassUDT.simps addChildrenSymbols.simps addChildrenLoop.simps
  addInnerTypes.simps addFieldMember.simps createTypedef.simps setType.simps setTypeUDT.simps
  setMemberOffset_def setTypeModifier_def setPointerType_def addArrayDimension_def
  setBaseType_def setBaseTypeUInt_def setBaseTypeInt_def setBaseTypeFloat_def
  btUInt_def btInt_def btFloat_def updModifiers_def addModifierFlag_def writeRef_def readRef_def
  setSuperClassName_def size_t_of_LONG_def
  scanFile_def scanPass_def loadDataFromPdb_def handleCount_def acquire_def release_def

lemma upt_35: "[0..<35] = [0::nat, 1, 2, 3, 4, 5, 6, 7, 8, 9, 10, 11, 12, 13, 14, 15, 16, 17, 18, 19, 20, 21, 22, 23, 24, 25, 26, 27, 28, 29, 30, 31, 32, 33, 34]"
  by (simp add: upt_rec)

lemmas scan_simps = upt_35
  startScan_def beforeFiles_def afterFiles_def updatePostponedFieldNames_def
  renameAnonymousTypes_def renameAnonymousType_unfold renameOne_def baseScanner_def [symmetric]
  sizelessClass_def

lemmas name_simps =
  classSymbol_def noProps_def namedSymbol_def sameButName_def getName_def Let_def str_find_def
  str_erase_def anonymous_namespace_hyphen_def anonymous_namespace_space_def

subsection \<open>Base types\<close>



subsection \<open>Superclass resolution\<close>

text \<open>
  C8. For a base-class symbol of a class \<open>udt\<close>, \<open>setSuperClassName\<close> returns \<open>DDR_RC_OK\<close>,
  and so does \<open>addSymbol\<close>, which hands a symbol with the tag \<open>SymTagBaseClass\<close> to it. When
  the name is read, is not empty and is registered, the superclass slot of \<open>udt\<close> is bound
  to the registered node and nothing is postponed. When it is read, is not empty and is not
  registered, one entry with the slot and the name is appended to the postponed references
  and the slot is left as it is. When the name cannot be read or is empty, the state is
  unchanged.
\<close>

theorem setSuperClassName_defers:
  assumes "getName symbol = (rc, nm)"
  shows "\<exists>st'. setSuperClassName symbol (Some udt) st = Some (DDR_RC_OK, st')
     \<and> (get_symTag (props symbol) = Some SymTagBaseClass
          \<longrightarrow> addSymbol symbol (Some udt) st = Some (DDR_RC_OK, st'))
     \<and> (rc = DDR_RC_OK \<and> nm \<noteq> [] \<and> typeMap st nm \<noteq> None
          \<longrightarrow> readRef st' (SuperClassRef udt) = typeMap st nm
              \<and> postponedFields st' = postponedFields st)
     \<and> (rc = DDR_RC_OK \<and> nm \<noteq> [] \<and> typeMap st nm = None
          \<longrightarrow> postponedFields st' = postponedFields st @ [(SuperClassRef udt, nm)]
              \<and> readRef st' (SuperClassRef udt) = readRef st (SuperClassRef udt))
     \<and> (rc \<noteq> DDR_RC_OK \<or> nm = [] \<longrightarrow> st' = st)"
  using assms
  by (auto simp: setSuperClassName_def readRef_def writeRef_def updType_def addSymbol.simps)

text \<open>The statement at a base class that is registered, at one that is not, and at one
  whose name cannot be read.\<close>

theorem setSuperClassName_defers_witness:
  "addSymbol (baseClassSymbol (Some ''U32'')) (Some 35) baseScanner
     = Some (DDR_RC_OK, writeRef (SuperClassRef 35) (Some 22) baseScanner)
   \<and> addSymbol (baseClassSymbol (Some ''Base'')) (Some 35) baseScanner
     = Some (DDR_RC_OK, baseScanner\<lparr>postponedFields := [(SuperClassRef 35, ''Base'')]\<rparr>)
   \<and> addSymbol (baseClassSymbol None) (Some 35) baseScanner = Some (DDR_RC_OK, baseScanner)"
proof -
  have n: "getName (baseClassSymbol (Some ''U32'')) = (DDR_RC_OK, ''U32'')"
    "getName (baseClassSymbol (Some ''Base'')) = (DDR_RC_OK, ''Base'')"
    "getName (baseClassSymbol None) = (DDR_RC_ERROR, [])"
    by (simp_all add: baseClassSymbol_def name_simps)
  have t: "get_symTag (props (baseClassSymbol x)) = Some SymTagBaseClass" for x
    by (simp add: baseClassSymbol_def noProps_def)
  have r: "typeMap baseScanner ''U32'' = Some 22" "typeMap baseScanner ''Base'' = None"
    "postponedFields baseScanner = []"
    by (simp_all add: baseScanner_simps baseTypeArray_def errorNoType_def)
  from setSuperClassName_defers [OF n(1), of 35 baseScanner]
    setSuperClassName_defers [OF n(2), of 35 baseScanner]
    setSuperClassName_defers [OF n(3), of 35 baseScanner]
  show ?thesis
    by (auto simp: t r setSuperClassName_def n writeRef_def)
qed

subsection \<open>Namespace chains\<close>

text \<open>
  C1. The scan of one file whose global scope declares the single class
  \<open>Outer::Inner::Leaf\<close> returns \<open>DDR_RC_OK\<close> and creates three nodes: \<open>Outer\<close> (35), \<open>Inner\<close>
  (36) and \<open>Leaf\<close> (37). \<open>Outer\<close> is in the root list, \<open>Inner\<close> and \<open>Leaf\<close> are not, and
  \<open>Leaf\<close> is the one child of its owner \<open>Inner\<close>. The owner of \<open>Inner\<close> is \<open>Outer\<close>, but the
  child list of \<open>Outer\<close> is empty, and \<open>Inner\<close> is in the child list of none of the three
  nodes: the container that \<open>getNamespaceFromName\<close> creates gets its owner at its creation, and is
  pushed to the owner's children only when it has no owner.
\<close>

theorem namespace_chain_unlinked:
  "case startScan True loadBlacklist 8 [pdbFile [classSymbol ''Outer::Inner::Leaf'' 8 []]] []
          emptyScanner of
     None \<Rightarrow> False
   | Some (rc, st) \<Rightarrow>
       rc = DDR_RC_OK
       \<and> typeMap st ''Outer'' = Some 35 \<and> typeMap st ''Outer::Inner'' = Some 36
       \<and> typeMap st ''Outer::Inner::Leaf'' = Some 37
       \<and> t_name (typeStore st 35) = ''Outer'' \<and> t_name (typeStore st 36) = ''Inner''
       \<and> t_name (typeStore st 37) = ''Leaf''
       \<and> 35 \<in> set (ir_types st) \<and> 36 \<notin> set (ir_types st) \<and> 37 \<notin> set (ir_types st)
       \<and> t_outerNamespace (typeStore st 37) = Some 36 \<and> t_subUDTs (typeStore st 36) = [37]
       \<and> t_outerNamespace (typeStore st 36) = Some 35 \<and> t_subUDTs (typeStore st 35) = []
       \<and> t_subUDTs (typeStore st 37) = [] \<and> nextType st = 38"
  by (simp add: eval_simps scan_simps del: One_nat_def)

subsection \<open>Errors of the builders\<close>

text \<open>
  C7. For a typedef whose name cannot be read, \<open>createTypedef\<close> returns \<open>DDR_RC_ERROR\<close>, and
  \<open>addSymbol\<close>, which drops the return code of \<open>createTypedef\<close>, returns \<open>DDR_RC_OK\<close> for
  the same symbol in the same state; the scan of a file that declares that typedef returns
  \<open>DDR_RC_OK\<close>.
\<close>

theorem typedef_error_dropped:
  "createTypedef (typedefSymbol None (baseTypeSymbol btInt 4)) None st
     = Some (DDR_RC_ERROR, st)
   \<and> addSymbol (typedefSymbol None (baseTypeSymbol btInt 4)) None st = Some (DDR_RC_OK, st)
   \<and> scanFile (pdbFile [typedefSymbol None (baseTypeSymbol btInt 4)]) st = Some (DDR_RC_OK, st)"
  by (simp add: eval_simps scan_simps del: One_nat_def)

text \<open>
  C3. \<open>createClassUDT\<close> returns \<open>DDR_RC_ERROR\<close> for a class whose size cannot be read. The
  scan of two files, the first of which declares such a class \<open>A\<close> and the second a class
  \<open>B\<close>, reaches both files and returns \<open>DDR_RC_OK\<close>, and \<open>B\<close> is registered: the first loop
  of \<open>addChildrenSymbols\<close> drops the return code of \<open>addSymbol\<close>.
\<close>

theorem scan_goes_on_after_failure:
  "createClassUDT (sizelessClass ''A'') None baseScanner = Some (DDR_RC_ERROR, baseScanner)
   \<and> (case scanFiles [pdbFile [sizelessClass ''A''], pdbFile [classSymbol ''B'' 4 []]]
             baseScanner of
         None \<Rightarrow> False
       | Some (rc, reached, st) \<Rightarrow>
           rc = DDR_RC_OK
           \<and> reached = [pdbFile [sizelessClass ''A''], pdbFile [classSymbol ''B'' 4 []]]
           \<and> typeMap st ''A'' = None \<and> typeMap st ''B'' = Some 35)
   \<and> (case startScan True loadBlacklist 8
             [pdbFile [sizelessClass ''A''], pdbFile [classSymbol ''B'' 4 []]] [] emptyScanner of
         None \<Rightarrow> False
       | Some (rc, st) \<Rightarrow> rc = DDR_RC_OK \<and> typeMap st ''B'' = Some 35)"
  by (simp add: eval_simps scan_simps del: One_nat_def)

subsection \<open>The size of a typedef\<close>

text \<open>
  C9. For a typedef \<open>T\<close> of a class \<open>Bar\<close> that is not registered, both blacklist checks
  pass and \<open>setType\<close> returns \<open>DDR_RC_OK\<close>: it records a postponed reference for the slot
  of the aliased type and leaves the slot null. \<open>createTypedef\<close> then reads the size
  through the null slot: it has no result, and neither has the scan of a file that declares
  the typedef.
\<close>

theorem typedef_of_postponed_class:
  "(case newTypedefUDT ''T'' None baseScanner of
      (newTypedef, st1) \<Rightarrow>
        (case setType (typedefSymbol (Some ''T'') (classSymbol ''Bar'' 4 []))
                (AliasedTypeRef newTypedef) (TypedefModifiers newTypedef) None st1 of
           None \<Rightarrow> False
         | Some (rc, st2) \<Rightarrow>
             rc = DDR_RC_OK \<and> t_aliasedType (typeStore st2 newTypedef) = None
             \<and> postponedFields st2 = [(AliasedTypeRef newTypedef, ''Bar'')]))
   \<and> createTypedef (typedefSymbol (Some ''T'') (classSymbol ''Bar'' 4 [])) None baseScanner = None
   \<and> startScan True loadBlacklist 8
        [pdbFile [typedefSymbol (Some ''T'') (classSymbol ''Bar'' 4 [])]] [] emptyScanner = None"
  by (simp add: eval_simps scan_simps del: One_nat_def)

subsection \<open>Postponed references\<close>

text \<open>The patcher by its first entry, and what one entry changes.\<close>

lemma patch_Cons: "patchPostponed (e # rest) st = patchPostponed rest (patchPostponed [e] st)"
  by (cases e) (simp add: Let_def split: prod.split)

lemma patch_one_shape:
  "typeMap (patchPostponed [e] st) = typeMap st"
  "ir_types (patchPostponed [e] st) = ir_types st"
  "nextType (patchPostponed [e] st) = nextType st + length (unregistered st [e])"
  by (cases e; simp add: allocType_def writeRef_def updType_def updField_def Let_def
      unregistered_def split: TypeRef.split)+


lemma patch_one_subUDTs:
  "set (t_subUDTs (typeStore (patchPostponed [e] st) a)) \<subseteq> set (t_subUDTs (typeStore st a))"
  by (cases e) (simp add: allocType_def writeRef_def updType_def updField_def Let_def
      newTypeNode_def split: TypeRef.split)





lemma patch_shape:
  "typeMap (patchPostponed ps st) = typeMap st
   \<and> ir_types (patchPostponed ps st) = ir_types st
   \<and> nextType (patchPostponed ps st) = nextType st + length (unregistered st ps)"
proof (induction ps arbitrary: st)
  case Nil
  show ?case by (simp add: unregistered_def)
next
  case (Cons e ps)
  have "unregistered (patchPostponed [e] st) ps = unregistered st ps"
    by (simp add: unregistered_def patch_one_shape)
  with Cons [of "patchPostponed [e] st"] show ?case
    by (simp add: patch_Cons [of e ps] patch_one_shape) (simp add: unregistered_def)
qed


lemma patch_subUDTs:
  "set (t_subUDTs (typeStore (patchPostponed ps st) a)) \<subseteq> set (t_subUDTs (typeStore st a))"
proof (induction ps arbitrary: st)
  case Nil
  show ?case by simp
next
  case (Cons e ps)
  from Cons [of "patchPostponed [e] st"] patch_one_subUDTs [of e st a] show ?case
    unfolding patch_Cons [of e ps] by (rule subset_trans)
qed





lemma patch_addressesAllocated:
  assumes "addressesAllocated st"
  shows "addressesAllocated (patchPostponed ps st)"
  unfolding addressesAllocated_def
proof (intro conjI ballI allI)
  fix t assume "t \<in> ran (typeMap (patchPostponed ps st))"
  with assms show "t < nextType (patchPostponed ps st)"
    by (auto simp: addressesAllocated_def patch_shape)
next
  fix t assume "t \<in> set (ir_types (patchPostponed ps st))"
  with assms show "t < nextType (patchPostponed ps st)"
    by (auto simp: addressesAllocated_def patch_shape)
next
  fix a t assume "t \<in> set (t_subUDTs (typeStore (patchPostponed ps st) a))"
  with patch_subUDTs [of ps st a] have "t \<in> set (t_subUDTs (typeStore st a))" by blast
  with assms have "t < nextType st" by (auto simp: addressesAllocated_def)
  then show "t < nextType (patchPostponed ps st)" by (simp add: patch_shape)
qed









subsection \<open>Anonymous types\<close>

text \<open>A generated name is not anonymous; \<open>renameOne\<close> changes the name of one node and
  nothing else; the renamer is the fold of \<open>renameOne\<close> over the visiting order.\<close>

lemma less_not_in_decimal: "CHR ''<'' \<notin> set (decimal n)"
proof (induction n rule: decimal.induct)
  case (1 n)
  have d: "char_of (48 + d) \<noteq> CHR ''<''" if "d < 10" for d :: nat
  proof
    assume "char_of (48 + d) = CHR ''<''"
    then have "of_char (char_of (48 + d) :: char) = (of_char CHR ''<'' :: nat)" by simp
    with that show False by simp
  qed
  show ?case
  proof (cases "n < 10")
    case True
    then show ?thesis using d [of n] by (simp add: decimal.simps [of n])
  next
    case False
    with 1 d [of "n mod 10"] show ?thesis by (simp add: decimal.simps [of n])
  qed
qed

lemma occurs_at_hd:
  assumes "occurs_at (c # pat) s k"
  shows "c \<in> set s"
proof -
  from assms have "take (Suc (length pat)) (drop k s) = c # pat" by (simp add: occurs_at_def)
  then have "c \<in> set (take (Suc (length pat)) (drop k s))" by simp
  then show ?thesis by (meson in_set_dropD in_set_takeD)
qed

lemma generated_name_not_anonymous:
  "str_find (''AnonymousType'' @ decimal c) ''<unnamed-type-'' 0 = None"
  "''AnonymousType'' @ decimal c \<noteq> ''<unnamed-tag>''"
  "str_find [] ''<unnamed-type-'' 0 = None"
proof -
  have "CHR ''<'' \<notin> set (''AnonymousType'' @ decimal c)"
    using less_not_in_decimal [of c] by simp
  then have "\<forall>k. \<not> occurs_at ''<unnamed-type-'' (''AnonymousType'' @ decimal c) k"
    using occurs_at_hd by blast
  then show "str_find (''AnonymousType'' @ decimal c) ''<unnamed-type-'' 0 = None"
    unfolding str_find_0_None_iff .
  show "''AnonymousType'' @ decimal c \<noteq> ''<unnamed-tag>''" by simp
  show "str_find [] ''<unnamed-type-'' 0 = None" by (simp add: str_find_def)
qed

lemma renameOne_cases:
  "renameOne t (c, s) =
     (if anonymousRoot s t
      then ((c + 1) mod 2 ^ 64, updType t (\<lambda>x. x\<lparr>t_name := ''AnonymousType'' @ decimal c\<rparr>) s)
      else if isAnonymous s t then (c, updType t (\<lambda>x. x\<lparr>t_name := []\<rparr>) s)
      else (c, s))"
  by (simp add: renameOne_def anonymousRoot_def isAnonymous_def)

lemma renameOne_frame:
  "getSubUDTS (snd (renameOne t cs)) a = getSubUDTS (snd cs) a"
  "getNamespace (snd (renameOne t cs)) a = getNamespace (snd cs) a"
  "a \<noteq> t \<Longrightarrow> typeStore (snd (renameOne t cs)) a = typeStore (snd cs) a"
  "(typeStore (snd (renameOne t cs)) a)\<lparr>t_name := []\<rparr> = (typeStore (snd cs) a)\<lparr>t_name := []\<rparr>"
  "typeMap (snd (renameOne t cs)) = typeMap (snd cs)"
  "ir_types (snd (renameOne t cs)) = ir_types (snd cs)"
  "fieldStore (snd (renameOne t cs)) = fieldStore (snd cs)"
  "nextType (snd (renameOne t cs)) = nextType (snd cs)"
  by (cases cs; simp add: renameOne_cases getSubUDTS_def getNamespace_def updType_def)+

lemma visitOrder_cong_aux:
  "(\<forall>a. getSubUDTS s a = getSubUDTS s' a) \<longrightarrow> visitOrder depth s t = visitOrder depth s' t"
  "(\<forall>a. getSubUDTS s a = getSubUDTS s' a)
     \<longrightarrow> visitOrders depth s ts = visitOrders depth s' ts"
  by (induction depth s t and depth s ts rule: visitOrder_visitOrders.induct)
    (auto split: option.splits)

lemma visitOrder_cong:
  assumes "\<And>a. getSubUDTS s a = getSubUDTS s' a"
  shows "visitOrder depth s t = visitOrder depth s' t"
    and "visitOrders depth s ts = visitOrders depth s' ts"
  using assms visitOrder_cong_aux [of s s'] by blast+


lemma fold_renameOne_frame:
  "getSubUDTS (snd (fold renameOne vs cs)) a = getSubUDTS (snd cs) a"
  by (induction vs arbitrary: cs) (simp_all add: renameOne_frame)

lemma rename_is_fold:
  "renameAnonymousType depth t cs
     = (case visitOrder depth (snd cs) t of
          None \<Rightarrow> None
        | Some vs \<Rightarrow> Some (fold renameOne vs cs))"
  "renameSubUDTs depth ts cs
     = (case visitOrders depth (snd cs) ts of
          None \<Rightarrow> None
        | Some vs \<Rightarrow> Some (fold renameOne vs cs))"
proof (induction depth t cs and depth ts cs rule: renameAnonymousType_renameSubUDTs.induct)
  case (1 type cs)
  show ?case by simp
next
  case (2 depth type cs)
  have v: "visitOrders depth (snd (renameOne type cs)) subUDTs
      = visitOrders depth (snd cs) subUDTs" for subUDTs
    by (rule visitOrder_cong) (rule renameOne_frame)
  show ?case
  proof (cases "getSubUDTS (snd cs) type")
    case None
    then show ?thesis by (simp add: Let_def renameOne_frame)
  next
    case (Some subUDTs)
    then have "getSubUDTS (snd (renameOne type cs)) type = Some subUDTs"
      by (simp add: renameOne_frame)
    from 2 [OF refl this] this Some show ?thesis
      by (simp add: Let_def v split: option.split)
  qed
next
  case (3 depth cs)
  show ?case by simp
next
  case (4 depth t rest cs)
  show ?case
  proof (cases "visitOrder depth (snd cs) t")
    case None
    with 4(1) show ?thesis by simp
  next
    case (Some v)
    with 4(1) have r: "renameAnonymousType depth t cs = Some (fold renameOne v cs)" by simp
    have "visitOrders depth (snd (fold renameOne v cs)) rest = visitOrders depth (snd cs) rest"
      by (rule visitOrder_cong) (rule fold_renameOne_frame)
    with 4(2) [OF r] r Some show ?thesis
      by (simp split: option.split)
  qed
qed

lemma firstRoots_seen:
  assumes "\<forall>x. anonymousRoot st x \<longrightarrow> (x \<in> set seen \<longleftrightarrow> x \<in> set seen')"
  shows "firstRoots st seen ts = firstRoots st seen' ts"
  using assms by (induction ts arbitrary: seen seen') auto


lemma renamed_not_anonymous:
  "\<not> isAnonymous (updType t (\<lambda>x. x\<lparr>t_name := ''AnonymousType'' @ decimal c\<rparr>) s) t"
  "\<not> isAnonymous (updType t (\<lambda>x. x\<lparr>t_name := []\<rparr>) s) t"
  "x \<noteq> t \<Longrightarrow> isAnonymous (updType t f s) x = isAnonymous s x"
proof -
  have n: "t_name (typeStore (updType t (\<lambda>x. x\<lparr>t_name := nm\<rparr>) s) t) = nm" for nm
    by (simp add: updType_def)
  show "\<not> isAnonymous (updType t (\<lambda>x. x\<lparr>t_name := ''AnonymousType'' @ decimal c\<rparr>) s) t"
    unfolding isAnonymous_def n using generated_name_not_anonymous(1,2) [of c] by blast
  show "\<not> isAnonymous (updType t (\<lambda>x. x\<lparr>t_name := []\<rparr>) s) t"
    unfolding isAnonymous_def n using generated_name_not_anonymous(3) by simp
  show "x \<noteq> t \<Longrightarrow> isAnonymous (updType t f s) x = isAnonymous s x"
    by (simp add: isAnonymous_def updType_def)
qed

lemma fold_rename:
  assumes "\<forall>t. t \<notin> set seen \<longrightarrow> typeStore s t = typeStore st t"
    and "\<forall>t \<in> set seen. \<not> isAnonymous s t"
    and "\<forall>t. getNamespace s t = getNamespace st t"
    and "c < 2 ^ 64"
  shows "fst (fold renameOne vs (c, s)) = (c + length (firstRoots st seen vs)) mod 2 ^ 64
     \<and> (\<forall>k < length (firstRoots st seen vs).
           t_name (typeStore (snd (fold renameOne vs (c, s))) (firstRoots st seen vs ! k))
             = ''AnonymousType'' @ decimal ((c + k) mod 2 ^ 64))
     \<and> (\<forall>t \<in> set vs. t \<notin> set seen \<and> isAnonymous st t \<and> \<not> anonymousRoot st t
           \<longrightarrow> t_name (typeStore (snd (fold renameOne vs (c, s))) t) = [])
     \<and> (\<forall>t. t \<in> set seen \<or> t \<notin> set vs \<or> \<not> isAnonymous st t
           \<longrightarrow> typeStore (snd (fold renameOne vs (c, s))) t = typeStore s t)"
  using assms
proof (induction vs arbitrary: c s seen)
  case Nil
  then show ?case by simp
next
  case (Cons t ts)
  note unvisited = Cons.prems(1) and visited = Cons.prems(2) and owner = Cons.prems(3)
    and small = Cons.prems(4)
  show ?case
  proof (cases "t \<in> set seen")
    case True
    with visited have na: "\<not> isAnonymous s t" by simp
    then have step: "renameOne t (c, s) = (c, s)"
      by (simp add: renameOne_cases anonymousRoot_def)
    from True have roots: "firstRoots st seen (t # ts) = firstRoots st seen ts" by simp
    from Cons.IH [OF unvisited visited owner small] True show ?thesis
      unfolding roots by (simp add: step)
  next
    case False
    with unvisited have same: "typeStore s t = typeStore st t" by simp
    then have anon_eq: "isAnonymous s t = isAnonymous st t"
      and root_eq: "anonymousRoot s t = anonymousRoot st t"
      using owner by (simp_all add: isAnonymous_def anonymousRoot_def)
    consider (root) "anonymousRoot st t"
      | (other) "isAnonymous st t" "\<not> anonymousRoot st t"
      | (named) "\<not> isAnonymous st t"
      by blast
    then show ?thesis
    proof cases
      case root
      let ?s1 = "updType t (\<lambda>x. x\<lparr>t_name := ''AnonymousType'' @ decimal c\<rparr>) s"
      let ?c1 = "(c + 1) mod 2 ^ 64"
      let ?r = "fold renameOne ts (?c1, ?s1)"
      let ?roots = "firstRoots st (t # seen) ts"
      from root have step: "renameOne t (c, s) = (?c1, ?s1)"
        by (simp add: renameOne_cases root_eq)
      from root False have roots: "firstRoots st seen (t # ts) = t # ?roots" by simp
      have u1: "\<forall>x. x \<notin> set (t # seen) \<longrightarrow> typeStore ?s1 x = typeStore st x"
        using unvisited by (simp add: updType_def)
      have v1: "\<forall>x \<in> set (t # seen). \<not> isAnonymous ?s1 x"
      proof
        fix x assume x: "x \<in> set (t # seen)"
        show "\<not> isAnonymous ?s1 x"
        proof (cases "x = t")
          case True
          show ?thesis unfolding True by (rule renamed_not_anonymous(1))
        next
          case ne: False
          with x visited have "\<not> isAnonymous s x" by simp
          with ne show ?thesis by (simp only: renamed_not_anonymous(3) not_False_eq_True)
        qed
      qed
      have o1: "\<forall>x. getNamespace ?s1 x = getNamespace st x"
        using owner by (simp add: getNamespace_def updType_def)
      have c1: "?c1 < 2 ^ 64" by simp
      note ih = Cons.IH [OF u1 v1 o1 c1]
      from ih have ih1: "fst ?r = (?c1 + length ?roots) mod 2 ^ 64"
        and ih2: "\<forall>k < length ?roots.
          t_name (typeStore (snd ?r) (?roots ! k)) = ''AnonymousType'' @ decimal ((?c1 + k) mod 2 ^ 64)"
        and ih3: "\<forall>x \<in> set ts. x \<notin> set (t # seen) \<and> isAnonymous st x \<and> \<not> anonymousRoot st x
          \<longrightarrow> t_name (typeStore (snd ?r) x) = []"
        and ih4: "\<forall>x. x \<in> set (t # seen) \<or> x \<notin> set ts \<or> \<not> isAnonymous st x
          \<longrightarrow> typeStore (snd ?r) x = typeStore ?s1 x"
        by blast+
      have a1: "fst ?r = (c + length (t # ?roots)) mod 2 ^ 64"
        using ih1 by (simp add: mod_simps)
      have a2: "t_name (typeStore (snd ?r) ((t # ?roots) ! k))
          = ''AnonymousType'' @ decimal ((c + k) mod 2 ^ 64)" if "k < length (t # ?roots)" for k
      proof (cases k)
        case 0
        from ih4 have "typeStore (snd ?r) t = typeStore ?s1 t" by simp
        with 0 small show ?thesis by (simp add: updType_def)
      next
        case (Suc j)
        with that have "j < length ?roots" by simp
        with ih2 have "t_name (typeStore (snd ?r) (?roots ! j))
            = ''AnonymousType'' @ decimal ((?c1 + j) mod 2 ^ 64)" by blast
        with Suc show ?thesis by (simp add: mod_simps)
      qed
      have a3: "t_name (typeStore (snd ?r) x) = []"
        if "x \<in> set (t # ts)" "x \<notin> set seen" "isAnonymous st x" "\<not> anonymousRoot st x" for x
      proof -
        from that root have "x \<noteq> t" by blast
        with that ih3 show ?thesis by simp
      qed
      have a4: "typeStore (snd ?r) x = typeStore s x"
        if "x \<in> set seen \<or> x \<notin> set (t # ts) \<or> \<not> isAnonymous st x" for x
      proof -
        from that False root have ne: "x \<noteq> t" by (auto simp: anonymousRoot_def)
        from that ih4 have "typeStore (snd ?r) x = typeStore ?s1 x" by auto
        with ne show ?thesis by (simp add: updType_def)
      qed
      from a1 a2 a3 a4 show ?thesis
        unfolding roots by (simp add: step)
    next
      case other
      let ?s1 = "updType t (\<lambda>x. x\<lparr>t_name := []\<rparr>) s"
      let ?r = "fold renameOne ts (c, ?s1)"
      from other have step: "renameOne t (c, s) = (c, ?s1)"
        by (simp add: renameOne_cases root_eq anon_eq)
      from other have "\<forall>x. anonymousRoot st x \<longrightarrow> (x \<in> set seen \<longleftrightarrow> x \<in> set (t # seen))"
        by auto
      then have "firstRoots st seen ts = firstRoots st (t # seen) ts" by (rule firstRoots_seen)
      with other have roots: "firstRoots st seen (t # ts) = firstRoots st (t # seen) ts"
        by simp
      have u1: "\<forall>x. x \<notin> set (t # seen) \<longrightarrow> typeStore ?s1 x = typeStore st x"
        using unvisited by (simp add: updType_def)
      have v1: "\<forall>x \<in> set (t # seen). \<not> isAnonymous ?s1 x"
      proof
        fix x assume x: "x \<in> set (t # seen)"
        show "\<not> isAnonymous ?s1 x"
        proof (cases "x = t")
          case True
          show ?thesis unfolding True by (rule renamed_not_anonymous(2))
        next
          case ne: False
          with x visited have "\<not> isAnonymous s x" by simp
          with ne show ?thesis by (simp only: renamed_not_anonymous(3) not_False_eq_True)
        qed
      qed
      have o1: "\<forall>x. getNamespace ?s1 x = getNamespace st x"
        using owner by (simp add: getNamespace_def updType_def)
      note ih = Cons.IH [OF u1 v1 o1 small]
      from ih have ih3: "\<forall>x \<in> set ts. x \<notin> set (t # seen) \<and> isAnonymous st x
          \<and> \<not> anonymousRoot st x \<longrightarrow> t_name (typeStore (snd ?r) x) = []"
        and ih4: "\<forall>x. x \<in> set (t # seen) \<or> x \<notin> set ts \<or> \<not> isAnonymous st x
          \<longrightarrow> typeStore (snd ?r) x = typeStore ?s1 x"
        by blast+
      have a3: "t_name (typeStore (snd ?r) x) = []"
        if "x \<in> set (t # ts)" "x \<notin> set seen" "isAnonymous st x" "\<not> anonymousRoot st x" for x
      proof (cases "x = t")
        case True
        from ih4 have "typeStore (snd ?r) t = typeStore ?s1 t" by simp
        with True show ?thesis by (simp add: updType_def)
      next
        case False
        with that ih3 show ?thesis by simp
      qed
      have a4: "typeStore (snd ?r) x = typeStore s x"
        if "x \<in> set seen \<or> x \<notin> set (t # ts) \<or> \<not> isAnonymous st x" for x
      proof -
        from that False other have ne: "x \<noteq> t" by auto
        from that ih4 have "typeStore (snd ?r) x = typeStore ?s1 x" by auto
        with ne show ?thesis by (simp add: updType_def)
      qed
      from ih a3 a4 show ?thesis
        unfolding roots by (simp add: step)
    next
      case named
      then have step: "renameOne t (c, s) = (c, s)"
        by (simp add: renameOne_cases anon_eq anonymousRoot_def)
      from named have roots: "firstRoots st seen (t # ts) = firstRoots st seen ts"
        by (simp add: anonymousRoot_def)
      from Cons.IH [OF unvisited visited owner small] named show ?thesis
        unfolding roots by (auto simp: step)
    qed
  qed
qed


lemma fold_renameOne_rest:
  "(typeStore (snd (fold renameOne vs cs)) a)\<lparr>t_name := []\<rparr> = (typeStore (snd cs) a)\<lparr>t_name := []\<rparr>
   \<and> typeMap (snd (fold renameOne vs cs)) = typeMap (snd cs)
   \<and> ir_types (snd (fold renameOne vs cs)) = ir_types (snd cs)
   \<and> fieldStore (snd (fold renameOne vs cs)) = fieldStore (snd cs)"
  by (induction vs arbitrary: cs) (simp_all add: renameOne_frame)

lemma firstRoots_set:
  "set (firstRoots st seen ts) = {t \<in> set ts. anonymousRoot st t \<and> t \<notin> set seen}
   \<and> distinct (firstRoots st seen ts)"
  by (induction ts arbitrary: seen) auto

lemma decimal_digits:
  "decimal 0 = ''0''" "decimal 1 = ''1''" "decimal 2 = ''2''"
  by (simp_all add: decimal.simps char_of_eq_iff)

lemma visitOrder_unfold:
  "visitOrder depth st t =
     (if depth = 0 then None
      else (case getSubUDTS st t of
              None \<Rightarrow> Some [t]
            | Some subUDTs \<Rightarrow> map_option (Cons t) (visitOrders (depth - 1) st subUDTs)))"
  by (cases depth) (simp_all split: option.split)

text \<open>
  C5. When the walk of the renamer from the root list stays within the bound \<open>depth\<close> and
  visits the nodes \<open>vs\<close>, in this order, the renamer returns. The anonymous roots among
  \<open>vs\<close>, each taken once and in the order of their first visit, get the names
  \<open>AnonymousType\<close> followed by the decimal digits of 0, 1, 2, ... in that order: the
  counter is one for the whole walk, nested nodes included; it is a \<^verbatim>\<open>ULONGLONG\<close>, so the
  number is taken modulo \<open>2 ^ 64\<close>. Every other anonymous node among \<open>vs\<close>, one with an
  owner or with a separator in its name, gets the empty name. A node that is not visited
  or not anonymous is left as it is, and nothing but names changes: the other components
  of every node, the registry, the root list and the fields are the same.
\<close>

theorem anonymous_types_renamed:
  assumes "visitOrders depth st (ir_types st) = Some vs"
  shows "\<exists>st'. renameAnonymousTypes depth st = Some st'
     \<and> (\<forall>k < length (firstRoots st [] vs).
           t_name (typeStore st' (firstRoots st [] vs ! k))
             = ''AnonymousType'' @ decimal (k mod 2 ^ 64))
     \<and> (\<forall>t \<in> set vs. isAnonymous st t \<and> \<not> anonymousRoot st t
           \<longrightarrow> t_name (typeStore st' t) = [])
     \<and> (\<forall>t. t \<notin> set vs \<or> \<not> isAnonymous st t \<longrightarrow> typeStore st' t = typeStore st t)
     \<and> (\<forall>t. (typeStore st' t)\<lparr>t_name := []\<rparr> = (typeStore st t)\<lparr>t_name := []\<rparr>)
     \<and> typeMap st' = typeMap st \<and> ir_types st' = ir_types st \<and> fieldStore st' = fieldStore st
     \<and> distinct (firstRoots st [] vs)
     \<and> set (firstRoots st [] vs) = {t \<in> set vs. anonymousRoot st t}"
proof -
  let ?r = "fold renameOne vs (0, st)"
  have r: "renameAnonymousTypes depth st = Some (snd ?r)"
    using assms by (simp add: renameAnonymousTypes_def rename_is_fold)
  have "fst ?r = (0 + length (firstRoots st [] vs)) mod 2 ^ 64
     \<and> (\<forall>k < length (firstRoots st [] vs).
           t_name (typeStore (snd ?r) (firstRoots st [] vs ! k))
             = ''AnonymousType'' @ decimal ((0 + k) mod 2 ^ 64))
     \<and> (\<forall>t \<in> set vs. t \<notin> set [] \<and> isAnonymous st t \<and> \<not> anonymousRoot st t
           \<longrightarrow> t_name (typeStore (snd ?r) t) = [])
     \<and> (\<forall>t. t \<in> set [] \<or> t \<notin> set vs \<or> \<not> isAnonymous st t
           \<longrightarrow> typeStore (snd ?r) t = typeStore st t)"
    by (rule fold_rename) simp_all
  then have a: "\<forall>k < length (firstRoots st [] vs).
        t_name (typeStore (snd ?r) (firstRoots st [] vs ! k))
          = ''AnonymousType'' @ decimal (k mod 2 ^ 64)"
    and b: "\<forall>t \<in> set vs. isAnonymous st t \<and> \<not> anonymousRoot st t
        \<longrightarrow> t_name (typeStore (snd ?r) t) = []"
    and c: "\<forall>t. t \<notin> set vs \<or> \<not> isAnonymous st t \<longrightarrow> typeStore (snd ?r) t = typeStore st t"
    by simp_all
  from fold_renameOne_rest [of vs "(0, st)"]
  have d: "\<forall>t. (typeStore (snd ?r) t)\<lparr>t_name := []\<rparr> = (typeStore st t)\<lparr>t_name := []\<rparr>"
    "typeMap (snd ?r) = typeMap st" "ir_types (snd ?r) = ir_types st"
    "fieldStore (snd ?r) = fieldStore st"
    by simp_all
  from firstRoots_set [of st "[]" vs]
  have e: "distinct (firstRoots st [] vs)"
    "set (firstRoots st [] vs) = {t \<in> set vs. anonymousRoot st t}"
    by simp_all
  show ?thesis
    by (rule exI [of _ "snd ?r"]) (use r a b c d e in blast)
qed


text \<open>The statement at the scan of a file with the anonymous classes \<open><unnamed-type-a>\<close>
  and \<open><unnamed-type-b>\<close> at the top level and \<open><unnamed-type-x>\<close> inside \<open>Foo\<close>.\<close>

theorem anonymous_types_renamed_witness:
  "\<exists>st st'.
     scanFiles [pdbFile anonymousClasses] baseScanner
       = Some (DDR_RC_OK, [pdbFile anonymousClasses], st)
     \<and> t_name (typeStore st 35) = ''<unnamed-type-a>''
     \<and> t_name (typeStore st 37) = ''<unnamed-type-x>''
     \<and> t_outerNamespace (typeStore st 37) = Some 36
     \<and> t_name (typeStore st 38) = ''<unnamed-type-b>''
     \<and> renameAnonymousTypes 8 st = Some st'
     \<and> t_name (typeStore st' 35) = ''AnonymousType0''
     \<and> t_name (typeStore st' 38) = ''AnonymousType1''
     \<and> t_name (typeStore st' 37) = []
     \<and> t_name (typeStore st' 36) = ''Foo''"
proof -
  let ?files = "[pdbFile anonymousClasses]"
  let ?vs = "[0..<35] @ [35, 36, 37, 38]"
  have "case scanFiles ?files baseScanner of
      None \<Rightarrow> False
    | Some (rc, reached, st) \<Rightarrow>
        rc = DDR_RC_OK \<and> reached = ?files
        \<and> t_name (typeStore st 35) = ''<unnamed-type-a>''
        \<and> t_name (typeStore st 36) = ''Foo''
        \<and> t_name (typeStore st 37) = ''<unnamed-type-x>''
        \<and> t_outerNamespace (typeStore st 37) = Some 36
        \<and> t_name (typeStore st 38) = ''<unnamed-type-b>''
        \<and> visitOrders 8 st (ir_types st) = Some ?vs
        \<and> firstRoots st [] ?vs = [35, 38]
        \<and> isAnonymous st 37 \<and> \<not> anonymousRoot st 37 \<and> \<not> isAnonymous st 36"
    by (simp add: eval_simps anonymousClasses_def upt_35 visitOrder_unfold isAnonymous_def
        anonymousRoot_def del: One_nat_def)
  then obtain st where sf: "scanFiles ?files baseScanner = Some (DDR_RC_OK, ?files, st)"
    and nm: "t_name (typeStore st 35) = ''<unnamed-type-a>''"
      "t_name (typeStore st 36) = ''Foo''"
      "t_name (typeStore st 37) = ''<unnamed-type-x>''"
      "t_outerNamespace (typeStore st 37) = Some 36"
      "t_name (typeStore st 38) = ''<unnamed-type-b>''"
    and vs: "visitOrders 8 st (ir_types st) = Some ?vs"
    and roots: "firstRoots st [] ?vs = [35, 38]"
    and others: "isAnonymous st 37" "\<not> anonymousRoot st 37" "\<not> isAnonymous st 36"
    by (auto split: option.splits)
  from anonymous_types_renamed [OF vs] obtain st' where
    r: "renameAnonymousTypes 8 st = Some st'"
    and a: "\<forall>k < length (firstRoots st [] ?vs).
        t_name (typeStore st' (firstRoots st [] ?vs ! k))
          = ''AnonymousType'' @ decimal (k mod 2 ^ 64)"
    and b: "\<forall>t \<in> set ?vs. isAnonymous st t \<and> \<not> anonymousRoot st t
        \<longrightarrow> t_name (typeStore st' t) = []"
    and c: "\<forall>t. t \<notin> set ?vs \<or> \<not> isAnonymous st t \<longrightarrow> typeStore st' t = typeStore st t"
    by blast
  from a [unfolded roots, rule_format, of 0] a [unfolded roots, rule_format, of 1]
  have "t_name (typeStore st' 35) = ''AnonymousType0''"
    "t_name (typeStore st' 38) = ''AnonymousType1''"
    by (simp_all add: decimal_digits del: One_nat_def)
  moreover from b others have "t_name (typeStore st' 37) = []" by simp
  moreover from c others nm have "t_name (typeStore st' 36) = ''Foo''" by simp
  ultimately show ?thesis using sf nm r by blast
qed

subsection \<open>Name normalisation\<close>























subsection \<open>Merging a declaration into a class\<close>











end
